theory Spec2Isabelle
  imports Main "HOL-Library.Word" "HOL-Library.Multiset"
begin

unbundle bit_operations_syntax

section \<open>JavaScript strings and the runtime services the parsers read\<close>

text \<open>
  A JavaScript string is a sequence of UTF-16 code units; \<open>charCodeAt\<close> returns the
  code unit as a number. A string is modelled as the list of its code units. Code units
  are below 65536; no definition below depends on that bound.
\<close>

type_synonym jsstring = "nat list"

definition js :: "string \<Rightarrow> jsstring" where
  "js s = map of_char s"

text \<open>
  \<open>WhiteSpace\<close> and \<open>LineTerminator\<close> of ECMAScript: the code units that
  \<open>String.prototype.trim\<close> strips and that \<open>\s\<close> matches. The dot of a regular
  expression matches every code unit that is not a line terminator; \<open>\d\<close> matches the
  ten ASCII digits.
\<close>

definition is_ws :: "nat \<Rightarrow> bool" where
  "is_ws c \<longleftrightarrow>
     c \<in> set [9, 10, 11, 12, 13, 32, 160, 5760, 8232, 8233, 8239, 8287, 12288, 65279]
     \<or> (8192 \<le> c \<and> c \<le> 8202)"

definition is_line_terminator :: "nat \<Rightarrow> bool" where
  "is_line_terminator c \<longleftrightarrow> c \<in> set [10, 13, 8232, 8233]"

definition is_digit :: "nat \<Rightarrow> bool" where
  "is_digit c \<longleftrightarrow> 48 \<le> c \<and> c \<le> 57"

definition startsWith :: "jsstring \<Rightarrow> jsstring \<Rightarrow> bool" where
  "startsWith s p \<longleftrightarrow> take (length p) s = p"

definition trim :: "jsstring \<Rightarrow> jsstring" where
  "trim s = rev (dropWhile is_ws (rev (dropWhile is_ws s)))"

text \<open>\<open>content.split('\n')\<close>: the pieces between line feeds; never an empty list.\<close>

fun split_nl :: "jsstring \<Rightarrow> jsstring list" where
  "split_nl [] = [[]]"
| "split_nl (c # cs) =
     (if c = 10 then [] # split_nl cs
      else (case split_nl cs of [] \<Rightarrow> [[c]] | l # ls \<Rightarrow> (c # l) # ls))"

text \<open>\<open>s.lastIndexOf(c)\<close> for a single code unit; \<open>None\<close> stands for -1.\<close>

definition lastIndexOf :: "jsstring \<Rightarrow> nat \<Rightarrow> nat option" where
  "lastIndexOf s c =
     (if c \<in> set s then Some (length s - 1 - length (takeWhile (\<lambda>x. x \<noteq> c) (rev s)))
      else None)"

text \<open>\<open>s.replace(/\s+/g, '_')\<close>: every maximal run of white space becomes one underscore.\<close>

function replace_ws :: "jsstring \<Rightarrow> jsstring" where
  "replace_ws [] = []"
| "replace_ws (c # cs) =
     (if is_ws c then 95 # replace_ws (dropWhile is_ws cs) else c # replace_ws cs)"
  by pat_completeness auto
termination
  by (relation "measure length") (auto simp: length_dropWhile_le less_Suc_eq_le)

text \<open>
  \<open>Number.prototype.toString(radix)\<close> on a non-negative integer, with the digits
  \<open>0-9a-z\<close>, and the decimal rendering of an integer inside a template literal
  (JavaScript switches to exponent notation from \<open>10^21\<close> on, far beyond a clock
  reading or an array index).
\<close>

definition digit_char :: "nat \<Rightarrow> nat" where
  "digit_char d = (if d < 10 then 48 + d else 87 + d)"

function toString_radix :: "nat \<Rightarrow> nat \<Rightarrow> jsstring" where
  "toString_radix r n =
     (if r < 2 \<or> n < r then [digit_char n]
      else toString_radix r (n div r) @ [digit_char (n mod r)])"
  by pat_completeness auto
termination
  by (relation "measure (\<lambda>(r, n). n)") auto

declare toString_radix.simps [simp del]

definition number_toString :: "int \<Rightarrow> jsstring" where
  "number_toString n =
     (if n < 0 then js ''-'' @ toString_radix 10 (nat (- n)) else toString_radix 10 (nat n))"

text \<open>
  \<open>a || d\<close> where \<open>a\<close> is a string, \<open>null\<close> or \<open>undefined\<close> and \<open>d\<close> is a string:
  \<open>null\<close>, \<open>undefined\<close> and the empty string are falsy.
\<close>

definition truthy :: "jsstring option \<Rightarrow> bool" where
  "truthy x = (case x of None \<Rightarrow> False | Some s \<Rightarrow> s \<noteq> [])"

definition or_default :: "jsstring option \<Rightarrow> jsstring \<Rightarrow> jsstring" where
  "or_default x d = (case x of None \<Rightarrow> d | Some s \<Rightarrow> if s = [] then d else s)"

text \<open>
  A \<open>Date\<close> object holds a time value: milliseconds since 1970-01-01T00:00:00Z, or NaN
  for an invalid date.
\<close>

datatype jsdate = Invalid_Date | Date int

text \<open>
  A programme as the guide parser builds it. \<open>start\<close> and \<open>stop\<close> are what
  \<open>parseXmltvDate\<close> returns: \<open>null\<close> (here \<open>None\<close>) for a missing attribute, else a
  \<open>Date\<close>, valid or invalid.
\<close>

record programme =
  channelId :: jsstring
  start :: "jsdate option"
  stop :: "jsdate option"
  title :: "jsstring option"
  subtitle :: "jsstring option"
  description :: "jsstring option"
  category :: "jsstring list"
  icon :: "jsstring option"
  date :: "jsstring option"
  episodeNum :: "jsstring option"

text \<open>
  What the code reads from the JavaScript runtime and what is not part of the repository:
  the clock (\<open>Date.now()\<close>, \<open>new Date()\<close>), the Unicode case tables behind
  \<open>String.prototype.toLowerCase\<close>, the implementation-defined parsing of a date
  string that is not in the ISO format modelled below, and the implementation-defined
  order in which \<open>Array.prototype.sort\<close> leaves an array when its comparator returns
  NaN for some pairs.
\<close>

record runtime =
  clock :: int
  toLowerCase :: "jsstring \<Rightarrow> jsstring"
  date_parse_other :: "jsstring \<Rightarrow> jsdate"
  sort_with_nan :: "programme list \<Rightarrow> programme list"

text \<open>
  Lower-casing of the ASCII letters only. On a string of ASCII code units it is what
  \<open>toLowerCase\<close> returns; the concrete runs below use it on such strings.
\<close>

definition ascii_lower :: "jsstring \<Rightarrow> jsstring" where
  "ascii_lower s = map (\<lambda>c. if 65 \<le> c \<and> c \<le> 90 then c + 32 else c) s"

definition run_at :: "int \<Rightarrow> runtime" where
  "run_at t = \<lparr>clock = t, toLowerCase = ascii_lower, date_parse_other = (\<lambda>s. Invalid_Date),
              sort_with_nan = (\<lambda>ps. ps)\<rparr>"

section \<open>Playlist parser (m3uParser.js)\<close>

subsection \<open>generateStableId\<close>

text \<open>
  One round of the loop: \<open>hash = ((hash << 5) - hash) + char; hash = hash & hash\<close>.
  The shift and the final \<open>&\<close> convert to a 32-bit integer; the subtraction and the
  addition between them are exact on doubles, so the round is arithmetic modulo \<open>2^32\<close>.
\<close>

definition hash_step :: "32 word \<Rightarrow> nat \<Rightarrow> 32 word" where
  "hash_step hash char = (push_bit 5 hash - hash) + of_nat char"

definition generateStableId :: "jsstring option \<Rightarrow> jsstring option \<Rightarrow> jsstring" where
  "generateStableId name group' =
     (let str = or_default name (js ''unknown'') @ js '':'' @ or_default group' (js ''unknown'');
          hash = foldl hash_step 0 str
      in js ''m3u_'' @ toString_radix 36 (nat \<bar>sint hash\<bar>))"

text \<open>
  The reference definition of the stable hash, word for word: an absent input becomes
  \<open>unknown\<close>, the two are joined by a colon, the rolling hash is folded over the
  integers with the truncation to the signed 32-bit range written out, then absolute
  value, base 36 and the prefix.
\<close>

definition to_int32 :: "int \<Rightarrow> int" where
  "to_int32 x = (x + 2 ^ 31) mod 2 ^ 32 - 2 ^ 31"

definition spec_hash :: "jsstring \<Rightarrow> int" where
  "spec_hash s = foldl (\<lambda>h c. to_int32 (h * 2 ^ 5 - h + int c)) 0 s"

definition spec_absent_default :: "jsstring option \<Rightarrow> jsstring" where
  "spec_absent_default x = (case x of None \<Rightarrow> js ''unknown'' | Some s \<Rightarrow> s)"

definition spec_stable_id :: "jsstring \<Rightarrow> jsstring \<Rightarrow> jsstring" where
  "spec_stable_id n g =
     js ''m3u_'' @ toString_radix 36 (nat \<bar>spec_hash (n @ js '':'' @ g)\<bar>)"

subsection \<open>parseExtinf\<close>

text \<open>
  The descriptor built from a metadata line. \<open>duration\<close> keeps the text that
  \<open>parseFloat\<close> is applied to (initially \<open>-1\<close>); no property below reads it.
\<close>

record info =
  duration :: jsstring
  tvgId :: "jsstring option"
  tvgName :: "jsstring option"
  tvgLogo :: "jsstring option"
  groupTitle :: "jsstring option"
  name :: "jsstring option"

text \<open>
  \<open>/#EXTINF:(-?\d+\.?\d*)\s*(.*)/\<close> tried at the start of \<open>s\<close>. Every quantifier is
  greedy and everything after \<open>\d+\<close> may match the empty string, so the first match the
  backtracking finds is the greedy one. The result is the pair of the two groups.
\<close>

definition extinf_at :: "jsstring \<Rightarrow> (jsstring \<times> jsstring) option" where
  "extinf_at s =
     (if startsWith s (js ''#EXTINF:'') then
        (let a = drop 8 s;
             sign = (if startsWith a (js ''-'') then js ''-'' else []);
             b = drop (length sign) a;
             ds = takeWhile is_digit b;
             c = dropWhile is_digit b;
             dot = (if startsWith c (js ''.'') then js ''.'' else []);
             d = drop (length dot) c;
             fs = takeWhile is_digit d;
             e = dropWhile is_ws (dropWhile is_digit d);
             rest = takeWhile (\<lambda>x. \<not> is_line_terminator x) e
         in if ds = [] then None else Some (sign @ ds @ dot @ fs, rest))
      else None)"

text \<open>\<open>line.match(re)\<close> without anchor: the leftmost position where the pattern matches.\<close>

fun extinf_search :: "jsstring \<Rightarrow> (jsstring \<times> jsstring) option" where
  "extinf_search [] = extinf_at []"
| "extinf_search (c # cs) =
     (case extinf_at (c # cs) of Some m \<Rightarrow> Some m | None \<Rightarrow> extinf_search cs)"

text \<open>
  The \<open>i\<close> flag compares canonicalised code units. The patterns hold ASCII only, and no
  code unit from 128 on is canonicalised to an ASCII one, so folding the ASCII letters
  decides the comparison.
\<close>

definition canon :: "nat \<Rightarrow> nat" where
  "canon c = (if 97 \<le> c \<and> c \<le> 122 then c - 32 else c)"

text \<open>
  \<open>/key="([^"]*)"/i\<close> tried at the start of \<open>s\<close>, and its leftmost match in \<open>s\<close>;
  \<open>key\<close> stands for the text before the first double quote (code unit 34).
\<close>

definition attr_at :: "jsstring \<Rightarrow> jsstring \<Rightarrow> jsstring option" where
  "attr_at key s =
     (let k = key @ [34];
          r = drop (length k) s;
          v = takeWhile (\<lambda>c. c \<noteq> 34) r
      in if map canon (take (length k) s) = map canon k \<and> length v < length r
         then Some v else None)"

fun attr_search :: "jsstring \<Rightarrow> jsstring \<Rightarrow> jsstring option" where
  "attr_search key [] = attr_at key []"
| "attr_search key (c # cs) =
     (case attr_at key (c # cs) of Some v \<Rightarrow> Some v | None \<Rightarrow> attr_search key cs)"

definition info0 :: info where
  "info0 = \<lparr>duration = js ''-1'', tvgId = None, tvgName = None, tvgLogo = None,
            groupTitle = None, name = None\<rparr>"

definition parseExtinf :: "runtime \<Rightarrow> jsstring \<Rightarrow> info" where
  "parseExtinf rt line =
     (case extinf_search line of
        None \<Rightarrow> info0
      | Some (d, rest) \<Rightarrow>
          (let i1 = info0\<lparr>duration := d,
                     tvgId := attr_search (js ''tvg-id='') rest,
                     tvgName := attr_search (js ''tvg-name='') rest,
                     tvgLogo := attr_search (js ''tvg-logo='') rest,
                     groupTitle := attr_search (js ''group-title='') rest\<rparr>;
               n = (case lastIndexOf rest 44 of
                      Some commaIndex \<Rightarrow> trim (drop (commaIndex + 1) rest)
                    | None \<Rightarrow> or_default (tvgName i1) (trim rest));
               i2 = i1\<lparr>name := Some n\<rparr>
           in if truthy (tvgId i2) then i2
              else i2\<lparr>tvgId := Some (if n \<noteq> [] then replace_ws (toLowerCase rt n)
                                      else js ''channel_'' @ number_toString (clock rt))\<rparr>))"

subsection \<open>parse\<close>

text \<open>A channel is the descriptor spread into a new object with \<open>id\<close> and \<open>url\<close>.\<close>

record channel = info +
  id' :: jsstring
  url :: jsstring

record group_entry =
  group_id :: jsstring
  group_name :: jsstring
  channelCount :: nat

record playlist =
  channels :: "channel list"
  groups :: "group_entry list"

datatype error = Error string

text \<open>
  The variables of the scan. \<open>groupsSet\<close> is a JavaScript \<open>Set\<close>: it keeps its
  elements in insertion order and ignores a second \<open>add\<close> of the same string.
\<close>

record scan_state =
  st_channels :: "channel list"
  groupsSet :: "jsstring list"
  currentInfo :: "info option"
  currentGroup :: "jsstring option"

definition set_add :: "jsstring list \<Rightarrow> jsstring \<Rightarrow> jsstring list" where
  "set_add xs x = (if x \<in> set xs then xs else xs @ [x])"

definition make_channel :: "info \<Rightarrow> jsstring \<Rightarrow> jsstring \<Rightarrow> jsstring \<Rightarrow> channel" where
  "make_channel ci stableId line gt =
     \<lparr>duration = duration ci, tvgId = tvgId ci, tvgName = tvgName ci, tvgLogo = tvgLogo ci,
      groupTitle = Some gt, name = name ci, id' = stableId, url = line\<rparr>"

text \<open>The body of the \<open>for\<close> loop, for one line.\<close>

definition scan_line :: "runtime \<Rightarrow> scan_state \<Rightarrow> jsstring \<Rightarrow> scan_state" where
  "scan_line rt st line =
     (if startsWith line (js ''#EXTINF:'') then
        (let ci = parseExtinf rt line in
         if truthy (groupTitle ci)
         then st\<lparr>currentInfo := Some ci,
                 groupsSet := set_add (groupsSet st) (or_default (groupTitle ci) []),
                 currentGroup := groupTitle ci\<rparr>
         else st\<lparr>currentInfo := Some ci\<rparr>)
      else if startsWith line (js ''#EXTGRP:'') then
        (let g = trim (drop 8 line) in
         st\<lparr>currentGroup := Some g,
            groupsSet := set_add (groupsSet st) g,
            currentInfo := map_option (\<lambda>ci. ci\<lparr>groupTitle := Some g\<rparr>) (currentInfo st)\<rparr>)
      else if line \<noteq> [] \<and> \<not> startsWith line (js ''#'') then
        (case currentInfo st of
           None \<Rightarrow> st
         | Some ci \<Rightarrow>
             (let gt = or_default (groupTitle ci)
                         (or_default (currentGroup st) (js ''Uncategorized''));
                  stableId = (if truthy (tvgId ci) then or_default (tvgId ci) []
                              else generateStableId (name ci) (Some gt))
              in st\<lparr>st_channels := st_channels st @ [make_channel ci stableId line gt],
                    currentInfo := None\<rparr>))
      else st)"

definition make_group :: "channel list \<Rightarrow> nat \<times> jsstring \<Rightarrow> group_entry" where
  "make_group chs p =
     \<lparr>group_id = js ''group_'' @ number_toString (int (fst p)),
      group_name = snd p,
      channelCount = length (filter (\<lambda>c. groupTitle c = Some (snd p)) chs)\<rparr>"

definition init_state :: scan_state where
  "init_state = \<lparr>st_channels = [], groupsSet = [], currentInfo = None, currentGroup = None\<rparr>"

text \<open>The loop over \<open>lines[1..]\<close>.\<close>

definition scan_lines :: "runtime \<Rightarrow> jsstring list \<Rightarrow> scan_state" where
  "scan_lines rt ls = foldl (scan_line rt) init_state ls"

definition parse :: "runtime \<Rightarrow> jsstring \<Rightarrow> error + playlist" where
  "parse rt content =
     (case map trim (split_nl content) of
        [] \<Rightarrow> Inl (Error ''Invalid M3U format: missing #EXTM3U header'')
      | l0 # ls \<Rightarrow>
          if l0 = [] \<or> \<not> startsWith l0 (js ''#EXTM3U'')
          then Inl (Error ''Invalid M3U format: missing #EXTM3U header'')
          else
            (let st = scan_lines rt ls
             in Inr \<lparr>channels = st_channels st,
                     groups = map (make_group (st_channels st))
                                (enumerate 0 (groupsSet st))\<rparr>))"

section \<open>Guide parser (epgParser.js)\<close>

subsection \<open>extractText\<close>

text \<open>
  What the XML deserialisation hands over for an element: a plain string, an object with
  the text under \<open>_\<close> or \<open>#text\<close> and the attributes merged in (of which
  \<open>lang\<close> is read), or an array of these. A missing element is \<open>None\<close>.
\<close>

datatype element =
    Str jsstring
  | Obj (underscore: "jsstring option") (hash_text: "jsstring option")
        (lang_attr: "jsstring option")
  | Arr "element list"

text \<open>\<open>e.lang\<close>: a string primitive and an array have no such property.\<close>

fun elem_lang :: "element \<Rightarrow> jsstring option" where
  "elem_lang (Obj u h l) = l"
| "elem_lang (Str s) = None"
| "elem_lang (Arr es) = None"

definition en_or_untagged :: "element \<Rightarrow> bool" where
  "en_or_untagged e \<longleftrightarrow> elem_lang e = Some (js ''en'') \<or> \<not> truthy (elem_lang e)"

text \<open>Truthiness of an element: only the empty string is falsy.\<close>

fun elem_truthy :: "element \<Rightarrow> bool" where
  "elem_truthy (Str s) = (s \<noteq> [])"
| "elem_truthy (Obj u h l) = True"
| "elem_truthy (Arr es) = True"

text \<open>\<open>element[0]\<close>, which is \<open>undefined\<close> on an empty array.\<close>

definition first_elem :: "element list \<Rightarrow> element option" where
  "first_elem es = (case es of [] \<Rightarrow> None | e # _ \<Rightarrow> Some e)"

definition en_or_first :: "element list \<Rightarrow> element option" where
  "en_or_first es =
     (case find en_or_untagged es of
        Some en \<Rightarrow> if elem_truthy en then Some en else first_elem es
      | None \<Rightarrow> first_elem es)"

function extractText :: "element option \<Rightarrow> jsstring option" where
  "extractText None = None"
| "extractText (Some (Str s)) = (if s = [] then None else Some s)"
| "extractText (Some (Arr es)) = extractText (en_or_first es)"
| "extractText (Some (Obj u h l)) =
     (if truthy u then u else if truthy h then h else Some (js ''[object Object]''))"
  by pat_completeness auto
termination
proof (relation "measure (\<lambda>x. case x of None \<Rightarrow> 0 | Some e \<Rightarrow> size e)")
  show "wf (measure (\<lambda>x. case x of None \<Rightarrow> 0 | Some e \<Rightarrow> size e))"
    by simp
next
  fix es :: "element list"
  have mem: "size e < Suc (size_list size es)" if "e \<in> set es" for e
    using that by (induction es) auto
  have "en_or_first es = None \<or> (\<exists>e \<in> set es. en_or_first es = Some e)"
    by (cases es)
      (auto simp: en_or_first_def first_elem_def find_Some_iff split: option.splits)
  then show "(en_or_first es, Some (Arr es))
      \<in> measure (\<lambda>x. case x of None \<Rightarrow> 0 | Some e \<Rightarrow> size e)"
    using mem by auto
qed

subsection \<open>parseXmltvDate\<close>

text \<open>
  \<open>/^(\d{4})(\d{2})(\d{2})(\d{2})(\d{2})(\d{2})\s*([+-]\d{4})?$/\<close>: the six groups of
  digits, and the offset group, which is \<open>undefined\<close> when it took no part in the match.
\<close>

definition xmltv_match ::
  "jsstring \<Rightarrow> (jsstring \<times> jsstring \<times> jsstring \<times> jsstring \<times> jsstring \<times> jsstring
     \<times> jsstring option) option" where
  "xmltv_match s =
     (let ds = take 14 s;
          r = dropWhile is_ws (drop 14 s)
      in if length ds = 14 \<and> list_all is_digit ds
            \<and> (r = [] \<or> (length r = 5 \<and> (take 1 r = js ''+'' \<or> take 1 r = js ''-'')
                          \<and> list_all is_digit (drop 1 r)))
         then Some (take 4 s, take 2 (drop 4 s), take 2 (drop 6 s), take 2 (drop 8 s),
                    take 2 (drop 10 s), take 2 (drop 12 s),
                    if r = [] then None else Some r)
         else None)"

text \<open>The decimal value of a string of digits.\<close>

definition num :: "jsstring \<Rightarrow> int" where
  "num s = foldl (\<lambda>n c. 10 * n + (int c - 48)) 0 s"

text \<open>
  Modelled from the spec: the \<open>Date\<close> constructor of the JavaScript runtime, which is
  not part of the repository, on the one shape of string that \<open>parseXmltvDate\<close> builds,
  \<open>YYYY-MM-DDTHH:mm:ss\<close> followed by \<open>Z\<close> or by \<open>+HH:mm\<close> or \<open>-HH:mm\<close>: the
  absolute instant of the calendar fields interpreted in the given offset. The day
  number follows the ECMAScript definitions of \<open>DayFromYear\<close> and \<open>MakeDay\<close>. A
  string of this shape whose month is not 01 to 12 holds an illegal element value and
  gives an invalid date. A string of another shape, or one whose other fields are out of
  range (a day beyond the month, hour 24), is left to the runtime.
\<close>

definition is_leap :: "int \<Rightarrow> bool" where
  "is_leap y \<longleftrightarrow> y mod 4 = 0 \<and> (y mod 100 \<noteq> 0 \<or> y mod 400 = 0)"

definition days_in_month :: "int \<Rightarrow> int \<Rightarrow> int" where
  "days_in_month y m =
     (if m = 2 then (if is_leap y then 29 else 28)
      else if m = 4 \<or> m = 6 \<or> m = 9 \<or> m = 11 then 30 else 31)"

definition DayFromYear :: "int \<Rightarrow> int" where
  "DayFromYear y =
     365 * (y - 1970) + (y - 1969) div 4 - (y - 1901) div 100 + (y - 1601) div 400"

definition MakeDay :: "int \<Rightarrow> int \<Rightarrow> int \<Rightarrow> int" where
  "MakeDay y m d =
     DayFromYear y + sum_list (map (days_in_month y) [1..m - 1]) + d - 1"

definition utc_instant :: "int \<Rightarrow> int \<Rightarrow> int \<Rightarrow> int \<Rightarrow> int \<Rightarrow> int \<Rightarrow> int" where
  "utc_instant y m d h mi sec =
     MakeDay y m d * 86400000 + h * 3600000 + mi * 60000 + sec * 1000"

definition fields_valid :: "int \<Rightarrow> int \<Rightarrow> int \<Rightarrow> int \<Rightarrow> int \<Rightarrow> int \<Rightarrow> bool" where
  "fields_valid y m d h mi sec \<longleftrightarrow>
     1 \<le> m \<and> m \<le> 12 \<and> 1 \<le> d \<and> d \<le> days_in_month y m \<and> h \<le> 23 \<and> mi \<le> 59 \<and> sec \<le> 59"

text \<open>The offset \<open>+HH:mm\<close> or \<open>-HH:mm\<close> in minutes east of UTC.\<close>

definition iso_offset :: "jsstring \<Rightarrow> int option" where
  "iso_offset z =
     (if z = js ''Z'' then Some 0
      else if length z = 6 \<and> (take 1 z = js ''+'' \<or> take 1 z = js ''-'')
              \<and> list_all is_digit (take 2 (drop 1 z)) \<and> take 1 (drop 3 z) = js '':''
              \<and> list_all is_digit (drop 4 z)
              \<and> num (take 2 (drop 1 z)) \<le> 23 \<and> num (drop 4 z) \<le> 59
      then Some ((if take 1 z = js ''-'' then - 1 else 1)
                   * (num (take 2 (drop 1 z)) * 60 + num (drop 4 z)))
      else None)"

definition iso_shape :: "jsstring \<Rightarrow> bool" where
  "iso_shape s \<longleftrightarrow>
     20 \<le> length s
     \<and> list_all is_digit (take 4 s) \<and> take 1 (drop 4 s) = js ''-''
     \<and> list_all is_digit (take 2 (drop 5 s)) \<and> take 1 (drop 7 s) = js ''-''
     \<and> list_all is_digit (take 2 (drop 8 s)) \<and> take 1 (drop 10 s) = js ''T''
     \<and> list_all is_digit (take 2 (drop 11 s)) \<and> take 1 (drop 13 s) = js '':''
     \<and> list_all is_digit (take 2 (drop 14 s)) \<and> take 1 (drop 16 s) = js '':''
     \<and> list_all is_digit (take 2 (drop 17 s))
     \<and> iso_offset (drop 19 s) \<noteq> None"

definition iso_parse :: "jsstring \<Rightarrow> int option" where
  "iso_parse s =
     (let y = num (take 4 s); m = num (take 2 (drop 5 s)); d = num (take 2 (drop 8 s));
          h = num (take 2 (drop 11 s)); mi = num (take 2 (drop 14 s));
          sec = num (take 2 (drop 17 s))
      in if iso_shape s \<and> fields_valid y m d h mi sec
         then (case iso_offset (drop 19 s) of
                 Some off \<Rightarrow> Some (utc_instant y m d h mi sec - off * 60000)
               | None \<Rightarrow> None)
         else None)"

definition iso_month_illegal :: "jsstring \<Rightarrow> bool" where
  "iso_month_illegal s \<longleftrightarrow>
     iso_shape s \<and> \<not> (1 \<le> num (take 2 (drop 5 s)) \<and> num (take 2 (drop 5 s)) \<le> 12)"

definition new_Date :: "runtime \<Rightarrow> jsstring \<Rightarrow> jsdate" where
  "new_Date rt s =
     (case iso_parse s of
        Some t \<Rightarrow> Date t
      | None \<Rightarrow> if iso_month_illegal s then Invalid_Date else date_parse_other rt s)"

definition parseXmltvDate :: "runtime \<Rightarrow> jsstring option \<Rightarrow> jsdate option" where
  "parseXmltvDate rt dateStr =
     (if \<not> truthy dateStr then None
      else
        (let s = or_default dateStr [] in
         case xmltv_match s of
           None \<Rightarrow> Some (new_Date rt s)
         | Some (year, month, day, hour, minute, second, tz) \<Rightarrow>
             (let isoStr = year @ js ''-'' @ month @ js ''-'' @ day @ js ''T''
                             @ hour @ js '':'' @ minute @ js '':'' @ second
              in Some (new_Date rt
                   (case tz of
                      Some z \<Rightarrow> isoStr @ (take 3 z @ js '':'' @ drop 3 z)
                    | None \<Rightarrow> isoStr @ js ''Z'')))))"

section \<open>Schedule resolver (epgParser.js)\<close>

text \<open>The result of the resolver; \<open>current\<close> is \<open>None\<close> for \<open>undefined\<close>.\<close>

record schedule =
  current :: "programme option"
  upcoming :: "programme list"

definition getProgrammesForChannel :: "programme list \<Rightarrow> jsstring \<Rightarrow> programme list" where
  "getProgrammesForChannel programmes cid = filter (\<lambda>p. channelId p = cid) programmes"

text \<open>
  The number a start or stop value is converted to by \<open>-\<close>, \<open><=\<close> and \<open>>\<close>:
  \<open>null\<close> is 0, a valid date is its time value, an invalid date is NaN (here \<open>None\<close>).
  A comparison with NaN is false.
\<close>

definition date_number :: "jsdate option \<Rightarrow> int option" where
  "date_number d =
     (case d of None \<Rightarrow> Some 0 | Some Invalid_Date \<Rightarrow> None | Some (Date t) \<Rightarrow> Some t)"

definition le_num :: "int option \<Rightarrow> int \<Rightarrow> bool" where
  "le_num a t = (case a of None \<Rightarrow> False | Some x \<Rightarrow> x \<le> t)"

definition gt_num :: "int option \<Rightarrow> int \<Rightarrow> bool" where
  "gt_num a t = (case a of None \<Rightarrow> False | Some x \<Rightarrow> x > t)"

definition start_number :: "programme \<Rightarrow> int" where
  "start_number p = (case date_number (start p) of None \<Rightarrow> 0 | Some t \<Rightarrow> t)"

text \<open>
  \<open>channelProgrammes.sort((a, b) => a.start - b.start)\<close>. When no start is an invalid
  date the comparator is the difference of two numbers, so it is consistent, and the
  sort, which is stable, is the stable sort by that number. When some start is an invalid
  date the comparator returns NaN and the order is the runtime's.
\<close>

definition sort_by_start :: "runtime \<Rightarrow> programme list \<Rightarrow> programme list" where
  "sort_by_start rt ps =
     (if list_all (\<lambda>p. date_number (start p) \<noteq> None) ps then sort_key start_number ps
      else sort_with_nan rt ps)"

text \<open>\<open>xs.slice(0, n)\<close>: a negative \<open>n\<close> counts from the end of the array.\<close>

definition slice0 :: "'a list \<Rightarrow> int \<Rightarrow> 'a list" where
  "slice0 xs n = (if n < 0 then take (nat (int (length xs) + n)) xs else take (nat n) xs)"

text \<open>
  The parameters are \<open>programmes\<close>, \<open>channelId\<close> and \<open>count\<close>; \<open>count\<close> is \<open>None\<close>
  when the caller leaves the argument out, and then defaults to 5. The reference time
  \<open>now\<close> is not a parameter: it is \<open>new Date()\<close>, the clock of the runtime.
\<close>

definition getCurrentAndUpcoming ::
  "runtime \<Rightarrow> programme list \<Rightarrow> jsstring \<Rightarrow> int option \<Rightarrow> schedule" where
  "getCurrentAndUpcoming rt programmes cid count' =
     (let n = (case count' of None \<Rightarrow> 5 | Some c \<Rightarrow> c);
          now = clock rt;
          channelProgrammes = sort_by_start rt (getProgrammesForChannel programmes cid)
      in \<lparr>current = find (\<lambda>p. le_num (date_number (start p)) now
                                \<and> gt_num (date_number (stop p)) now) channelProgrammes,
          upcoming = slice0 (filter (\<lambda>p. gt_num (date_number (start p)) now)
                               channelProgrammes) n\<rparr>)"

section \<open>Reference definitions taken from the specification\<close>

text \<open>The stable hash as specified, on possibly absent inputs.\<close>

definition spec_generateStableId :: "jsstring option \<Rightarrow> jsstring option \<Rightarrow> jsstring" where
  "spec_generateStableId name' group' =
     spec_stable_id (spec_absent_default name') (spec_absent_default group')"

text \<open>The identifiers of the channels of a parse, in order.\<close>

definition ids :: "error + playlist \<Rightarrow> jsstring list" where
  "ids r = (case r of Inl e \<Rightarrow> [] | Inr p \<Rightarrow> map id' (channels p))"

text \<open>
  The header condition as specified: the first non-empty line begins with the marker.
\<close>

definition spec_header_ok :: "jsstring \<Rightarrow> bool" where
  "spec_header_ok content =
     (case filter (\<lambda>l. l \<noteq> []) (map trim (split_nl content)) of
        [] \<Rightarrow> False
      | l # _ \<Rightarrow> startsWith l (js ''#EXTM3U''))"

text \<open>Totals of a parse: the sum of the group counts and the number of channels.\<close>

definition group_total :: "error + playlist \<Rightarrow> nat" where
  "group_total r = (case r of Inl e \<Rightarrow> 0 | Inr p \<Rightarrow> sum_list (map channelCount (groups p)))"

definition channel_total :: "error + playlist \<Rightarrow> nat" where
  "channel_total r = (case r of Inl e \<Rightarrow> 0 | Inr p \<Rightarrow> length (channels p))"

text \<open>
  The kinds of line the scan tells apart, and the number of metadata lines that are
  followed by a URL line when the lines satisfying \<open>skip\<close> are passed over.
\<close>

definition is_extinf :: "jsstring \<Rightarrow> bool" where
  "is_extinf l \<longleftrightarrow> startsWith l (js ''#EXTINF:'')"

definition is_url :: "jsstring \<Rightarrow> bool" where
  "is_url l \<longleftrightarrow> l \<noteq> [] \<and> \<not> startsWith l (js ''#'')"

definition followed_by_url :: "(jsstring \<Rightarrow> bool) \<Rightarrow> jsstring list \<Rightarrow> bool" where
  "followed_by_url skip ls = (case dropWhile skip ls of [] \<Rightarrow> False | l # _ \<Rightarrow> is_url l)"

fun count_entries :: "(jsstring \<Rightarrow> bool) \<Rightarrow> jsstring list \<Rightarrow> nat" where
  "count_entries skip [] = 0"
| "count_entries skip (l # ls) =
     (if is_extinf l \<and> followed_by_url skip ls then 1 else 0) + count_entries skip ls"

text \<open>
  The lines passed over as specified (blank lines and group-override lines), and the
  lines the scan passes over while a descriptor is pending (blank lines and every line
  that starts with \<open>#\<close> and is not a metadata line).
\<close>

definition blank_or_extgrp :: "jsstring \<Rightarrow> bool" where
  "blank_or_extgrp l \<longleftrightarrow> l = [] \<or> startsWith l (js ''#EXTGRP:'')"

definition blank_or_comment :: "jsstring \<Rightarrow> bool" where
  "blank_or_comment l \<longleftrightarrow> l = [] \<or> (startsWith l (js ''#'') \<and> \<not> startsWith l (js ''#EXTINF:''))"

definition spec_entry_total :: "jsstring \<Rightarrow> nat" where
  "spec_entry_total content = count_entries blank_or_extgrp (tl (map trim (split_nl content)))"

text \<open>
  The preference order as specified for a list of language-tagged entries: the entry
  tagged as English, else an entry with no language tag, else the first entry.
\<close>

definition is_english :: "element \<Rightarrow> bool" where
  "is_english e \<longleftrightarrow> elem_lang e = Some (js ''en'')"

definition is_untagged :: "element \<Rightarrow> bool" where
  "is_untagged e \<longleftrightarrow> elem_lang e = None"

definition spec_preferred :: "element list \<Rightarrow> element option" where
  "spec_preferred es =
     (case find is_english es of
        Some e \<Rightarrow> Some e
      | None \<Rightarrow> (case find is_untagged es of Some e \<Rightarrow> Some e | None \<Rightarrow> first_elem es))"

text \<open>
  The words of the schedule contract: a programme is airing at \<open>t\<close>
  (\<open>start <= t < stop\<close>), starts after \<open>t\<close>; the programmes of a channel in
  ascending order of \<open>start\<close>; the current programme and the first \<open>n\<close> upcoming ones
  at a reference time \<open>t\<close>. \<open>prog\<close> builds a programme for the concrete runs.
\<close>

definition airing_at :: "int \<Rightarrow> programme \<Rightarrow> bool" where
  "airing_at t p \<longleftrightarrow> le_num (date_number (start p)) t \<and> gt_num (date_number (stop p)) t"

definition starts_after :: "int \<Rightarrow> programme \<Rightarrow> bool" where
  "starts_after t p \<longleftrightarrow> gt_num (date_number (start p)) t"

definition in_start_order :: "programme list \<Rightarrow> jsstring \<Rightarrow> programme list" where
  "in_start_order ps cid = sort_key start_number (filter (\<lambda>p. channelId p = cid) ps)"

definition spec_current :: "programme list \<Rightarrow> jsstring \<Rightarrow> int \<Rightarrow> programme option" where
  "spec_current ps cid t = find (airing_at t) (in_start_order ps cid)"

definition spec_upcoming :: "programme list \<Rightarrow> jsstring \<Rightarrow> int \<Rightarrow> nat \<Rightarrow> programme list" where
  "spec_upcoming ps cid t n = take n (filter (starts_after t) (in_start_order ps cid))"

definition prog :: "jsstring \<Rightarrow> int \<Rightarrow> int \<Rightarrow> jsstring \<Rightarrow> programme" where
  "prog cid s e t =
     \<lparr>channelId = cid, start = Some (Date s), stop = Some (Date e), title = Some t,
      subtitle = None, description = None, category = [], icon = None, date = None,
      episodeNum = None\<rparr>"

text \<open>
  A call written to the specified contract, with the arguments \<open>programmes\<close>,
  \<open>channelId\<close>, \<open>referenceTime\<close> and \<open>count\<close>: JavaScript binds the third argument to the
  parameter \<open>count\<close> and drops the fourth; \<open>slice\<close> converts a reference time to its
  time value.
\<close>

definition call_as_specified ::
  "runtime \<Rightarrow> programme list \<Rightarrow> jsstring \<Rightarrow> int \<Rightarrow> nat \<Rightarrow> schedule" where
  "call_as_specified rt programmes cid referenceTime n =
     getCurrentAndUpcoming rt programmes cid (Some referenceTime)"

text \<open>No programme of the channel has an invalid date as its start.\<close>

definition valid_starts :: "programme list \<Rightarrow> jsstring \<Rightarrow> bool" where
  "valid_starts ps cid \<longleftrightarrow>
     (\<forall>p \<in> set ps. channelId p = cid \<longrightarrow> start p \<noteq> Some Invalid_Date)"

text \<open>
  The guide format's offset \<open>+HHMM\<close> or \<open>-HHMM\<close> in minutes east of UTC (no offset is
  UTC), the instant of the calendar fields interpreted in that offset, and the offsets
  that name a time zone: at most 23 hours and 59 minutes.
\<close>

definition spec_offset_minutes :: "jsstring \<Rightarrow> int" where
  "spec_offset_minutes tz =
     (if tz = [] then 0
      else (if take 1 tz = js ''-'' then - 1 else 1)
             * (num (take 2 (drop 1 tz)) * 60 + num (drop 3 tz)))"

definition spec_instant :: "jsstring \<Rightarrow> jsstring \<Rightarrow> jsstring \<Rightarrow> jsstring \<Rightarrow> jsstring
    \<Rightarrow> jsstring \<Rightarrow> jsstring \<Rightarrow> int" where
  "spec_instant Y Mo D H Mi S tz =
     utc_instant (num Y) (num Mo) (num D) (num H) (num Mi) (num S)
       - spec_offset_minutes tz * 60000"

definition well_formed_offset :: "jsstring \<Rightarrow> bool" where
  "well_formed_offset tz \<longleftrightarrow>
     tz = [] \<or> (length tz = 5 \<and> (take 1 tz = js ''+'' \<or> take 1 tz = js ''-'')
                 \<and> list_all is_digit (drop 1 tz)
                 \<and> num (take 2 (drop 1 tz)) \<le> 23 \<and> num (drop 3 tz) \<le> 59)"

text \<open>
  The group names a line declares: the non-empty \<open>group-title\<close> attribute of a metadata
  line that the duration pattern matches, and the text of a group-override line (also
  when it is empty). The declared names of a list of lines, and a list reduced to the
  first occurrence of each element.
\<close>

definition declared_in_line :: "jsstring \<Rightarrow> jsstring list" where
  "declared_in_line l =
     (if startsWith l (js ''#EXTINF:'') then
        (case extinf_search l of
           None \<Rightarrow> []
         | Some (d, rest) \<Rightarrow>
             (case attr_search (js ''group-title='') rest of
                None \<Rightarrow> []
              | Some g \<Rightarrow> if g = [] then [] else [g]))
      else if startsWith l (js ''#EXTGRP:'') then [trim (drop 8 l)]
      else [])"

definition declared_groups :: "jsstring list \<Rightarrow> jsstring list" where
  "declared_groups ls = concat (map declared_in_line ls)"

definition first_seen :: "'a list \<Rightarrow> 'a list" where
  "first_seen xs = rev (remdups (rev xs))"

section \<open>Invariants of the scan\<close>

text \<open>
  Group accounting: the set of groups has no duplicates, every channel carries a group
  that is in the set or is the sentinel, and a non-empty group of the pending descriptor
  or of the carried context is in the set.
\<close>

definition group_inv :: "scan_state \<Rightarrow> bool" where
  "group_inv st \<longleftrightarrow>
     distinct (groupsSet st)
     \<and> (\<forall>c \<in> set (st_channels st). \<exists>g. groupTitle c = Some g
           \<and> (g \<in> set (groupsSet st) \<or> g = js ''Uncategorized''))
     \<and> (\<forall>ci. currentInfo st = Some ci \<longrightarrow> truthy (groupTitle ci)
           \<longrightarrow> groupTitle ci \<in> Some ` set (groupsSet st))
     \<and> (truthy (currentGroup st) \<longrightarrow> currentGroup st \<in> Some ` set (groupsSet st))"

text \<open>Every channel carries a non-empty group.\<close>

definition group_nonempty :: "scan_state \<Rightarrow> bool" where
  "group_nonempty st \<longleftrightarrow> (\<forall>c \<in> set (st_channels st). \<exists>g. groupTitle c = Some g \<and> g \<noteq> [])"

text \<open>
  The entries of a playlist: each URL line paired with the metadata line that is pending
  when the scan reaches it, in order. \<open>pend\<close> is the metadata line pending at the start.
\<close>

fun entries_from :: "jsstring option \<Rightarrow> jsstring list \<Rightarrow> (jsstring \<times> jsstring) list" where
  "entries_from pend [] = []"
| "entries_from pend (l # ls) =
     (if is_extinf l then entries_from (Some l) ls
      else if is_url l then
        (case pend of
           Some m \<Rightarrow> (m, l) # entries_from None ls
         | None \<Rightarrow> entries_from None ls)
      else entries_from pend ls)"

text \<open>Channel \<open>c\<close> was built from the descriptor of metadata line \<open>l\<close> and URL line \<open>u\<close>.\<close>

definition built_from :: "runtime \<Rightarrow> channel \<Rightarrow> jsstring \<times> jsstring \<Rightarrow> bool" where
  "built_from rt c e \<longleftrightarrow>
     url c = snd e
     \<and> tvgId c = tvgId (parseExtinf rt (fst e))
     \<and> name c = name (parseExtinf rt (fst e))
     \<and> id' c = (if truthy (tvgId c) then or_default (tvgId c) []
                else generateStableId (name c) (groupTitle c))"

definition pending_from :: "runtime \<Rightarrow> scan_state \<Rightarrow> jsstring option \<Rightarrow> bool" where
  "pending_from rt st pend \<longleftrightarrow>
     (case currentInfo st of
        None \<Rightarrow> pend = None
      | Some ci \<Rightarrow> \<exists>l. pend = Some l \<and> tvgId ci = tvgId (parseExtinf rt l)
                     \<and> name ci = name (parseExtinf rt l))"

text \<open>
  The id of channel \<open>c\<close> as it follows from its metadata line \<open>l\<close>: without a match
  of the duration pattern the stable hash of an absent name; with a match the
  \<open>tvg-id\<close> attribute when it is present and non-empty, else, for a non-empty display
  name, the lower-cased name with white space replaced.
\<close>

definition id_from_line :: "runtime \<Rightarrow> channel \<Rightarrow> jsstring \<Rightarrow> bool" where
  "id_from_line rt c l \<longleftrightarrow>
     (case extinf_search l of
        None \<Rightarrow> id' c = generateStableId None (groupTitle c)
      | Some (d, rest) \<Rightarrow>
          (if truthy (attr_search (js ''tvg-id='') rest)
           then Some (id' c) = attr_search (js ''tvg-id='') rest
           else \<forall>n. name c = Some n \<and> n \<noteq> [] \<longrightarrow> id' c = replace_ws (toLowerCase rt n)))"

section \<open>Evaluation and auxiliary lemmas\<close>

lemmas run_defs =
  parse_def js_def trim_def is_ws_def startsWith_def scan_line_def parseExtinf_def
  extinf_at_def attr_at_def is_digit_def is_line_terminator_def canon_def lastIndexOf_def
  truthy_def or_default_def run_at_def ascii_lower_def info0_def make_channel_def
  make_group_def set_add_def enumerate_eq_zip generateStableId_def hash_step_def
  toString_radix.simps digit_char_def number_toString_def scan_lines_def init_state_def
  Let_def

lemma to_int32_stb: "to_int32 x = signed_take_bit 31 x"
  by (simp add: to_int32_def signed_take_bit_eq_take_bit_shift take_bit_eq_mod)

lemma hash_step_of_int: "hash_step w c = word_of_int (sint w * 2 ^ 5 - sint w + int c)"
  by (simp add: hash_step_def push_bit_eq_mult)

lemma sint_hash_step: "sint (hash_step w c) = to_int32 (sint w * 2 ^ 5 - sint w + int c)"
proof -
  have "sint (word_of_int (sint w * 2 ^ 5 - sint w + int c) :: 32 word)
          = signed_take_bit 31 (sint w * 2 ^ 5 - sint w + int c)"
    by (simp only: sint_sbintrunc') simp
  then show ?thesis
    by (simp only: hash_step_of_int to_int32_stb)
qed

lemma sint_foldl_hash_step:
  "sint (foldl hash_step w s) = foldl (\<lambda>h c. to_int32 (h * 2 ^ 5 - h + int c)) (sint w) s"
  by (induction s arbitrary: w) (simp_all add: sint_hash_step)

lemma hd_split_nl: "split_nl s = takeWhile (\<lambda>c. c \<noteq> 10) s # tl (split_nl s)"
  by (induction s) (auto split: list.splits)

lemma set_add_set: "set (set_add xs x) = insert x (set xs)"
  by (auto simp: set_add_def)

lemma set_add_distinct: "distinct xs \<Longrightarrow> distinct (set_add xs x)"
  by (auto simp: set_add_def)

lemma or_default_truthy: "truthy x \<Longrightarrow> Some (or_default x d) = x"
  by (cases x) (auto simp: truthy_def or_default_def)

lemma or_default_cases: "or_default x d = d \<or> (truthy x \<and> x = Some (or_default x d))"
  by (cases x) (auto simp: truthy_def or_default_def)

lemma group_inv_scan_line:
  assumes "group_inv st"
  shows "group_inv (scan_line rt st line)"
proof -
  consider (extinf) "startsWith line (js ''#EXTINF:'')"
    | (extgrp) "\<not> startsWith line (js ''#EXTINF:'')" "startsWith line (js ''#EXTGRP:'')"
    | (url) "\<not> startsWith line (js ''#EXTINF:'')" "\<not> startsWith line (js ''#EXTGRP:'')"
        "line \<noteq> [] \<and> \<not> startsWith line (js ''#'')"
    | (other) "\<not> startsWith line (js ''#EXTINF:'')" "\<not> startsWith line (js ''#EXTGRP:'')"
        "\<not> (line \<noteq> [] \<and> \<not> startsWith line (js ''#''))"
    by blast
  then show ?thesis
  proof cases
    case extinf
    show ?thesis
    proof (cases "truthy (groupTitle (parseExtinf rt line))")
      case True
      then have "Some (or_default (groupTitle (parseExtinf rt line)) []) = groupTitle (parseExtinf rt line)"
        by (rule or_default_truthy)
      with assms extinf True show ?thesis
        by (auto simp: group_inv_def scan_line_def Let_def set_add_set set_add_distinct image_iff)
    next
      case False
      with assms extinf show ?thesis
        by (auto simp: group_inv_def scan_line_def Let_def)
    qed
  next
    case extgrp
    with assms show ?thesis
      by (auto simp: group_inv_def scan_line_def Let_def set_add_set set_add_distinct image_iff)
  next
    case url
    show ?thesis
    proof (cases "currentInfo st")
      case None
      with assms url show ?thesis by (simp add: scan_line_def)
    next
      case (Some ci)
      let ?gt = "or_default (groupTitle ci) (or_default (currentGroup st) (js ''Uncategorized''))"
      have "?gt \<in> set (groupsSet st) \<or> ?gt = js ''Uncategorized''"
        using assms Some
          or_default_cases [of "groupTitle ci" "or_default (currentGroup st) (js ''Uncategorized'')"]
          or_default_cases [of "currentGroup st" "js ''Uncategorized''"]
        by (auto simp: group_inv_def)
      with assms url Some show ?thesis
        by (auto simp: group_inv_def scan_line_def Let_def make_channel_def)
    qed
  next
    case other
    with assms show ?thesis by (auto simp: scan_line_def)
  qed
qed

lemma group_inv_scan_lines: "group_inv (scan_lines rt ls)"
proof -
  have "group_inv st \<Longrightarrow> group_inv (foldl (scan_line rt) st ls)" for st
    by (induction ls arbitrary: st) (simp_all add: group_inv_scan_line)
  moreover have "group_inv init_state"
    by (simp add: group_inv_def init_state_def truthy_def)
  ultimately show ?thesis
    by (simp add: scan_lines_def)
qed

lemma count_one_of_distinct:
  "distinct ns \<Longrightarrow> (\<Sum>n\<leftarrow>ns. if x = Some n then 1 else 0) = (if x \<in> Some ` set ns then 1 else (0::nat))"
  by (induction ns) auto

lemma sum_counts_distinct:
  "distinct ns \<Longrightarrow>
     (\<Sum>n\<leftarrow>ns. length (filter (\<lambda>c. f c = Some n) cs))
       = length (filter (\<lambda>c. f c \<in> Some ` set ns) cs)"
proof (induction cs)
  case Nil
  then show ?case by simp
next
  case (Cons c cs)
  have "(\<Sum>n\<leftarrow>ns. length (filter (\<lambda>c. f c = Some n) (c # cs)))
      = (\<Sum>n\<leftarrow>ns. (if f c = Some n then 1 else 0) + length (filter (\<lambda>c. f c = Some n) cs))"
    by (rule arg_cong [where f = sum_list]) simp
  also have "\<dots> = (\<Sum>n\<leftarrow>ns. if f c = Some n then 1 else 0)
      + (\<Sum>n\<leftarrow>ns. length (filter (\<lambda>c. f c = Some n) cs))"
    by (simp add: sum_list_addf)
  finally show ?case
    using Cons by (simp add: count_one_of_distinct)
qed

lemma map_group_name: "map group_name (map (make_group chs) (enumerate k gs)) = gs"
  by (induction gs arbitrary: k) (simp_all add: make_group_def)

lemma map_channelCount:
  "map channelCount (map (make_group chs) (enumerate k gs))
     = map (\<lambda>g. length (filter (\<lambda>c. groupTitle c = Some g) chs)) gs"
  by (induction gs arbitrary: k) (simp_all add: make_group_def)

lemma parse_Inr:
  assumes "parse rt content = Inr p"
  obtains l0 ls where "map trim (split_nl content) = l0 # ls"
    and "startsWith l0 (js ''#EXTM3U'')"
    and "channels p = st_channels (scan_lines rt ls)"
    and "groups p = map (make_group (st_channels (scan_lines rt ls)))
                      (enumerate 0 (groupsSet (scan_lines rt ls)))"
  using assms by (auto simp: parse_def Let_def split: list.splits if_splits)

lemma startsWith_hash:
  "(startsWith l (js ''#EXTINF:'') \<longrightarrow> startsWith l (js ''#''))
   \<and> (startsWith l (js ''#EXTGRP:'') \<longrightarrow> startsWith l (js ''#''))
   \<and> (l = [] \<longrightarrow> \<not> startsWith l (js ''#''))"
  by (cases l) (simp_all add: startsWith_def js_def)

lemma scan_line_extinf:
  "is_extinf l \<Longrightarrow> st_channels (scan_line rt st l) = st_channels st
      \<and> currentInfo (scan_line rt st l) \<noteq> None"
  by (simp add: scan_line_def is_extinf_def Let_def)

lemma scan_line_url:
  "is_url l \<Longrightarrow> \<not> is_extinf l \<and>
     length (st_channels (scan_line rt st l))
        = length (st_channels st) + (if currentInfo st \<noteq> None then 1 else 0)
      \<and> currentInfo (scan_line rt st l) = None"
  using startsWith_hash [of l]
  by (auto simp: scan_line_def is_extinf_def is_url_def Let_def split: option.splits)

lemma scan_line_skip:
  "blank_or_comment l \<Longrightarrow> \<not> is_extinf l \<and> \<not> is_url l
      \<and> st_channels (scan_line rt st l) = st_channels st
      \<and> (currentInfo (scan_line rt st l) = None \<longleftrightarrow> currentInfo st = None)"
  using startsWith_hash [of l]
  by (auto simp: scan_line_def is_extinf_def is_url_def blank_or_comment_def Let_def)

lemma line_kinds: "is_extinf l \<or> is_url l \<or> blank_or_comment l"
  using startsWith_hash [of l]
  by (auto simp: is_extinf_def is_url_def blank_or_comment_def)

lemma extinf_not_skipped: "is_extinf l \<Longrightarrow> \<not> blank_or_comment l \<and> \<not> is_url l"
  using startsWith_hash [of l]
  by (auto simp: is_extinf_def is_url_def blank_or_comment_def)

lemma url_not_skipped: "is_url l \<Longrightarrow> \<not> blank_or_comment l"
  by (auto simp: is_url_def blank_or_comment_def)

lemma length_channels_foldl:
  "length (st_channels (foldl (scan_line rt) st ls))
     = length (st_channels st)
       + (if currentInfo st \<noteq> None \<and> followed_by_url blank_or_comment ls then 1 else 0)
       + count_entries blank_or_comment ls"
proof (induction ls arbitrary: st)
  case Nil
  then show ?case by (simp add: followed_by_url_def)
next
  case (Cons l ls)
  consider (e) "is_extinf l" | (u) "is_url l" | (s) "blank_or_comment l"
    using line_kinds by blast
  then show ?case
  proof cases
    case e
    with scan_line_extinf [OF e, of rt st] extinf_not_skipped [OF e] show ?thesis
      by (simp add: Cons.IH followed_by_url_def)
  next
    case u
    with scan_line_url [OF u, of rt st] url_not_skipped [OF u] show ?thesis
      by (simp add: Cons.IH followed_by_url_def)
  next
    case s
    with scan_line_skip [OF s, of rt st] show ?thesis
      by (simp add: Cons.IH followed_by_url_def)
  qed
qed

lemma replace_ws_nonempty: "s \<noteq> [] \<Longrightarrow> replace_ws s \<noteq> []"
  by (cases s) auto

lemma parseExtinf_no_match: "extinf_search line = None \<Longrightarrow> parseExtinf rt line = info0"
  by (simp add: parseExtinf_def)

lemma parseExtinf_match:
  assumes "extinf_search line = Some (d, rest)"
  shows "\<exists>n. name (parseExtinf rt line) = Some n
     \<and> tvgId (parseExtinf rt line) =
         (if truthy (attr_search (js ''tvg-id='') rest) then attr_search (js ''tvg-id='') rest
          else Some (if n \<noteq> [] then replace_ws (toLowerCase rt n)
                     else js ''channel_'' @ number_toString (clock rt)))"
  using assms by (simp add: parseExtinf_def Let_def info0_def)

lemma parseExtinf_truthy:
  assumes lc: "\<forall>s. s \<noteq> [] \<longrightarrow> toLowerCase rt s \<noteq> []"
    and m: "extinf_search line = Some m"
  shows "truthy (tvgId (parseExtinf rt line))"
proof -
  obtain d rest where "extinf_search line = Some (d, rest)"
    using m by (cases m) auto
  from parseExtinf_match [OF this, of rt] obtain n where
    t: "tvgId (parseExtinf rt line) =
         (if truthy (attr_search (js ''tvg-id='') rest) then attr_search (js ''tvg-id='') rest
          else Some (if n \<noteq> [] then replace_ws (toLowerCase rt n)
                     else js ''channel_'' @ number_toString (clock rt)))"
    by blast
  show ?thesis
  proof (cases "truthy (attr_search (js ''tvg-id='') rest)")
    case True
    then show ?thesis by (simp add: t)
  next
    case False
    have "replace_ws (toLowerCase rt n) \<noteq> []" if "n \<noteq> []"
      using that lc by (simp add: replace_ws_nonempty)
    moreover have "js ''channel_'' @ number_toString (clock rt) \<noteq> []"
      by (simp add: js_def)
    ultimately show ?thesis
      using False by (simp add: t truthy_def)
  qed
qed

lemma ascii_lower_nonempty: "\<forall>s. s \<noteq> [] \<longrightarrow> toLowerCase (run_at t) s \<noteq> []"
  by (simp add: run_at_def ascii_lower_def)

lemma find_first_index:
  assumes "i < length es" "P (es ! i)" "\<forall>j<i. \<not> P (es ! j)"
  shows "find P es = Some (es ! i)"
  using assms by (auto simp: find_Some_iff)

lemma elem_truthy_iff: "elem_truthy e \<longleftrightarrow> e \<noteq> Str []"
  by (cases e) auto

lemmas text_defs = en_or_first_def en_or_untagged_def first_elem_def truthy_def js_def
  is_english_def is_untagged_def spec_preferred_def

lemma date_number_None: "date_number d = None \<longleftrightarrow> d = Some Invalid_Date"
  by (auto simp: date_number_def split: option.splits jsdate.splits)

lemma sort_by_start_valid:
  assumes "valid_starts ps cid"
  shows "sort_by_start rt (getProgrammesForChannel ps cid) = in_start_order ps cid"
proof -
  have "list_all (\<lambda>p. date_number (start p) \<noteq> None) (getProgrammesForChannel ps cid)"
    using assms
    by (auto simp: valid_starts_def getProgrammesForChannel_def list_all_iff date_number_None)
  then show ?thesis
    by (simp add: sort_by_start_def in_start_order_def getProgrammesForChannel_def)
qed

lemma current_eq:
  assumes "valid_starts ps cid"
  shows "current (getCurrentAndUpcoming rt ps cid cnt) = spec_current ps cid (clock rt)"
proof -
  have "(\<lambda>p. le_num (date_number (start p)) (clock rt) \<and> gt_num (date_number (stop p)) (clock rt))
      = airing_at (clock rt)"
    by (simp add: airing_at_def fun_eq_iff)
  then show ?thesis
    by (simp add: getCurrentAndUpcoming_def sort_by_start_valid [OF assms] spec_current_def
        Let_def)
qed

lemma upcoming_eq:
  assumes "valid_starts ps cid"
  shows "upcoming (getCurrentAndUpcoming rt ps cid (Some (int n)))
     = spec_upcoming ps cid (clock rt) n"
proof -
  have "(\<lambda>p. gt_num (date_number (start p)) (clock rt)) = starts_after (clock rt)"
    by (simp add: starts_after_def fun_eq_iff)
  then show ?thesis
    by (simp add: getCurrentAndUpcoming_def sort_by_start_valid [OF assms] spec_upcoming_def
        Let_def slice0_def)
qed

lemma in_start_order_sorted: "sorted (map start_number (in_start_order ps cid))"
  by (simp add: in_start_order_def)

lemma in_start_order_mset:
  "mset (in_start_order ps cid) = mset (filter (\<lambda>p. channelId p = cid) ps)"
  by (simp add: in_start_order_def)

lemma in_start_order_set:
  "set (in_start_order ps cid) = {p \<in> set ps. channelId p = cid}"
  by (auto simp: in_start_order_def)

lemma find_sorted_least:
  assumes "sorted (map f xs)" "find P xs = Some x" "y \<in> set xs" "P y"
  shows "f x \<le> f y"
proof -
  from assms(2) obtain i where i: "i < length xs" "x = xs ! i" "\<forall>j<i. \<not> P (xs ! j)"
    by (auto simp: find_Some_iff)
  from assms(3) obtain k where k: "k < length xs" "y = xs ! k"
    by (auto simp: in_set_conv_nth)
  with i assms(4) have "i \<le> k"
    by (meson not_le_imp_less)
  with assms(1) k i show ?thesis
    using sorted_nth_mono [of "map f xs" i k] by simp
qed

lemma take_drop_sorted:
  assumes "sorted (map f xs)"
  shows "\<forall>p \<in> set (take n xs). \<forall>q \<in> set (drop n xs). f p \<le> f q"
proof -
  have "sorted (map f (take n xs) @ map f (drop n xs))"
    using assms by (simp flip: map_append)
  then show ?thesis
    by (auto simp: sorted_append)
qed

lemmas sched_defs = getCurrentAndUpcoming_def getProgrammesForChannel_def sort_by_start_def
  date_number_def le_num_def gt_num_def start_number_def slice0_def in_start_order_def
  airing_at_def starts_after_def spec_current_def spec_upcoming_def prog_def run_at_def
  js_def call_as_specified_def valid_starts_def Let_def

lemma len2: "length xs = 2 \<Longrightarrow> \<exists>a b. xs = [a, b]"
  by (cases xs; cases "tl xs") auto

lemma len4: "length xs = 4 \<Longrightarrow> \<exists>a b c d. xs = [a, b, c, d]"
  by (auto simp: length_Suc_conv numeral_eq_Suc)

lemma len5: "length xs = 5 \<Longrightarrow> \<exists>a b c d e. xs = [a, b, c, d, e]"
  by (auto simp: length_Suc_conv numeral_eq_Suc)

lemma dropWhile_ws_offset:
  assumes "list_all is_ws ws" "well_formed_offset tz"
  shows "dropWhile is_ws (ws @ tz) = tz"
proof -
  have "tz = [] \<or> \<not> is_ws (hd tz)"
    using assms(2) by (cases tz) (auto simp: well_formed_offset_def js_def is_ws_def)
  then have "dropWhile is_ws tz = tz"
    by (cases tz) auto
  with assms(1) show ?thesis
    by (simp add: dropWhile_append list_all_iff)
qed

lemma xmltv_match_fields:
  assumes "length Y = 4" "length Mo = 2" "length D = 2" "length H = 2" "length Mi = 2"
    "length S = 2"
    and "list_all is_digit (Y @ Mo @ D @ H @ Mi @ S)"
    and "list_all is_ws ws" and "well_formed_offset tz"
  shows "xmltv_match (Y @ Mo @ D @ H @ Mi @ S @ ws @ tz)
           = Some (Y, Mo, D, H, Mi, S, if tz = [] then None else Some tz)"
proof -
  from assms(1-6) obtain y1 y2 y3 y4 m1 m2 d1 d2 h1 h2 i1 i2 s1 s2 where
    e: "Y = [y1, y2, y3, y4]" "Mo = [m1, m2]" "D = [d1, d2]" "H = [h1, h2]" "Mi = [i1, i2]"
       "S = [s1, s2]"
    by (metis len2 len4)
  have w: "dropWhile is_ws (ws @ tz) = tz"
    using assms(8,9) by (rule dropWhile_ws_offset)
  have z: "tz = [] \<or> (length tz = 5 \<and> (take 1 tz = js ''+'' \<or> take 1 tz = js ''-'')
                 \<and> list_all is_digit (drop 1 tz))"
    using assms(9) by (auto simp: well_formed_offset_def)
  show ?thesis
    using assms(7) z by (auto simp: xmltv_match_def e w Let_def)
qed

lemma iso_parse_built:
  assumes "list_all is_digit [y1, y2, y3, y4, m1, m2, d1, d2, h1, h2, i1, i2, s1, s2]"
    and "fields_valid (num [y1, y2, y3, y4]) (num [m1, m2]) (num [d1, d2]) (num [h1, h2])
           (num [i1, i2]) (num [s1, s2])"
    and "iso_offset z = Some off"
  shows "iso_parse ([y1, y2, y3, y4] @ js ''-'' @ [m1, m2] @ js ''-'' @ [d1, d2] @ js ''T''
           @ [h1, h2] @ js '':'' @ [i1, i2] @ js '':'' @ [s1, s2] @ z)
         = Some (utc_instant (num [y1, y2, y3, y4]) (num [m1, m2]) (num [d1, d2])
                   (num [h1, h2]) (num [i1, i2]) (num [s1, s2]) - off * 60000)"
proof -
  have "z \<noteq> []"
    using assms(3) by (auto simp: iso_offset_def js_def split: if_splits)
  then have "20 \<le> length ([y1, y2, y3, y4] @ js ''-'' @ [m1, m2] @ js ''-'' @ [d1, d2] @ js ''T''
           @ [h1, h2] @ js '':'' @ [i1, i2] @ js '':'' @ [s1, s2] @ z)"
    by (cases z) (simp_all add: js_def)
  then show ?thesis
    using assms by (simp add: iso_parse_def iso_shape_def js_def Let_def)
qed

lemma iso_month_illegal_built:
  assumes "list_all is_digit [y1, y2, y3, y4, m1, m2, d1, d2, h1, h2, i1, i2, s1, s2]"
    and "\<not> (1 \<le> num [m1, m2] \<and> num [m1, m2] \<le> 12)"
    and "iso_offset z = Some off"
  shows "iso_parse ([y1, y2, y3, y4] @ js ''-'' @ [m1, m2] @ js ''-'' @ [d1, d2] @ js ''T''
           @ [h1, h2] @ js '':'' @ [i1, i2] @ js '':'' @ [s1, s2] @ z) = None
       \<and> iso_month_illegal ([y1, y2, y3, y4] @ js ''-'' @ [m1, m2] @ js ''-'' @ [d1, d2]
           @ js ''T'' @ [h1, h2] @ js '':'' @ [i1, i2] @ js '':'' @ [s1, s2] @ z)"
proof -
  have "z \<noteq> []"
    using assms(3) by (auto simp: iso_offset_def js_def split: if_splits)
  then have "20 \<le> length ([y1, y2, y3, y4] @ js ''-'' @ [m1, m2] @ js ''-'' @ [d1, d2] @ js ''T''
           @ [h1, h2] @ js '':'' @ [i1, i2] @ js '':'' @ [s1, s2] @ z)"
    by (cases z) (simp_all add: js_def)
  then show ?thesis
    using assms
    by (auto simp: iso_parse_def iso_month_illegal_def iso_shape_def fields_valid_def js_def
        Let_def)
qed

lemma iso_offset_Z: "iso_offset (js ''Z'') = Some 0"
  by (simp add: iso_offset_def)

lemma iso_offset_colon:
  assumes "well_formed_offset tz" "tz \<noteq> []"
  shows "iso_offset (take 3 tz @ js '':'' @ drop 3 tz) = Some (spec_offset_minutes tz)"
proof -
  from assms obtain sg a b c d where t: "tz = [sg, a, b, c, d]"
    using len5 [of tz] by (auto simp: well_formed_offset_def)
  show ?thesis
    using assms(1) unfolding t
    by (auto simp: well_formed_offset_def iso_offset_def spec_offset_minutes_def js_def)
qed

lemmas date_defs = js_def is_digit_def is_ws_def well_formed_offset_def fields_valid_def
  num_def days_in_month_def is_leap_def spec_instant_def utc_instant_def MakeDay_def
  DayFromYear_def spec_offset_minutes_def upto.simps

lemma scan_line_entries:
  assumes "pending_from rt st pend"
  shows "(is_extinf l \<longrightarrow> st_channels (scan_line rt st l) = st_channels st
            \<and> pending_from rt (scan_line rt st l) (Some l))
       \<and> (is_url l \<longrightarrow>
            (case pend of
               Some m \<Rightarrow> (\<exists>c. st_channels (scan_line rt st l) = st_channels st @ [c]
                             \<and> built_from rt c (m, l))
             | None \<Rightarrow> st_channels (scan_line rt st l) = st_channels st)
            \<and> pending_from rt (scan_line rt st l) None)
       \<and> (\<not> is_extinf l \<and> \<not> is_url l \<longrightarrow> st_channels (scan_line rt st l) = st_channels st
            \<and> pending_from rt (scan_line rt st l) pend)"
proof -
  have 1: "st_channels (scan_line rt st l) = st_channels st
      \<and> pending_from rt (scan_line rt st l) (Some l)" if "is_extinf l"
    using that by (simp add: scan_line_def is_extinf_def Let_def pending_from_def)
  have 2: "(case pend of
           Some m \<Rightarrow> (\<exists>c. st_channels (scan_line rt st l) = st_channels st @ [c]
                         \<and> built_from rt c (m, l))
         | None \<Rightarrow> st_channels (scan_line rt st l) = st_channels st)
        \<and> pending_from rt (scan_line rt st l) None" if "is_url l"
  proof -
    from that have k: "\<not> startsWith l (js ''#EXTINF:'')" "\<not> startsWith l (js ''#EXTGRP:'')"
      "l \<noteq> [] \<and> \<not> startsWith l (js ''#'')"
      using startsWith_hash [of l] by (auto simp: is_url_def)
    show ?thesis
    proof (cases "currentInfo st")
      case None
      with assms k show ?thesis
        by (simp add: scan_line_def pending_from_def)
    next
      case (Some ci)
      with assms k show ?thesis
        by (auto simp: scan_line_def pending_from_def Let_def make_channel_def built_from_def)
    qed
  qed
  have 3: "st_channels (scan_line rt st l) = st_channels st
      \<and> pending_from rt (scan_line rt st l) pend" if "\<not> is_extinf l \<and> \<not> is_url l"
  proof -
    from that have k: "\<not> startsWith l (js ''#EXTINF:'')"
      "\<not> (l \<noteq> [] \<and> \<not> startsWith l (js ''#''))"
      by (auto simp: is_extinf_def is_url_def)
    show ?thesis
    proof (cases "startsWith l (js ''#EXTGRP:'')")
      case True
      with assms k show ?thesis
        by (auto simp: scan_line_def pending_from_def Let_def split: option.splits)
    next
      case False
      with assms k show ?thesis
        by (auto simp: scan_line_def)
    qed
  qed
  from 1 2 3 show ?thesis by blast
qed

lemma foldl_scan_entries:
  assumes "pending_from rt st pend"
  shows "\<exists>cs. st_channels (foldl (scan_line rt) st ls) = st_channels st @ cs
            \<and> list_all2 (built_from rt) cs (entries_from pend ls)"
  using assms
proof (induction ls arbitrary: st pend)
  case Nil
  then show ?case by simp
next
  case (Cons l ls)
  note step = scan_line_entries [OF Cons.prems, of l]
  consider (e) "is_extinf l" | (u) "\<not> is_extinf l" "is_url l" | (s) "\<not> is_extinf l" "\<not> is_url l"
    by blast
  then show ?case
  proof cases
    case e
    with step Cons.IH [of "scan_line rt st l" "Some l"] show ?thesis
      by auto
  next
    case u
    show ?thesis
    proof (cases pend)
      case None
      with u step Cons.IH [of "scan_line rt st l" None] show ?thesis
        by auto
    next
      case (Some m)
      with u step obtain c where c: "st_channels (scan_line rt st l) = st_channels st @ [c]"
          "built_from rt c (m, l)" and "pending_from rt (scan_line rt st l) None"
        by auto
      with Cons.IH [of "scan_line rt st l" None] obtain cs where
        "st_channels (foldl (scan_line rt) (scan_line rt st l) ls)
           = st_channels (scan_line rt st l) @ cs"
        "list_all2 (built_from rt) cs (entries_from None ls)"
        by auto
      with c u Some show ?thesis
        by auto
    qed
  next
    case s
    with step Cons.IH [of "scan_line rt st l" pend] show ?thesis
      by auto
  qed
qed

lemma channels_built_from_entries:
  "list_all2 (built_from rt) (st_channels (scan_lines rt ls)) (entries_from None ls)"
  using foldl_scan_entries [of rt init_state None ls]
  by (simp add: scan_lines_def) (simp add: init_state_def pending_from_def)

lemma list_all2_lhs: "list_all2 P xs ys \<Longrightarrow> x \<in> set xs \<Longrightarrow> \<exists>y \<in> set ys. P x y"
  by (induction rule: list_all2_induct) auto

lemma built_from_id_from_line:
  assumes lc: "\<forall>s. s \<noteq> [] \<longrightarrow> toLowerCase rt s \<noteq> []"
    and b: "built_from rt c (l, u)"
  shows "id_from_line rt c l"
proof -
  from b have t: "tvgId c = tvgId (parseExtinf rt l)" and n: "name c = name (parseExtinf rt l)"
    and i: "id' c = (if truthy (tvgId c) then or_default (tvgId c) []
                      else generateStableId (name c) (groupTitle c))"
    by (simp_all add: built_from_def)
  show ?thesis
  proof (cases "extinf_search l")
    case None
    then have "parseExtinf rt l = info0"
      by (rule parseExtinf_no_match)
    with None t n i show ?thesis
      by (simp add: id_from_line_def info0_def truthy_def)
  next
    case (Some m)
    obtain d rest where m: "m = (d, rest)" by (cases m)
    from parseExtinf_match [of l d rest rt] Some m obtain k where
      k: "name (parseExtinf rt l) = Some k"
      and tv: "tvgId (parseExtinf rt l) =
         (if truthy (attr_search (js ''tvg-id='') rest) then attr_search (js ''tvg-id='') rest
          else Some (if k \<noteq> [] then replace_ws (toLowerCase rt k)
                     else js ''channel_'' @ number_toString (clock rt)))"
      by auto
    show ?thesis
    proof (cases "truthy (attr_search (js ''tvg-id='') rest)")
      case True
      with tv t have "truthy (tvgId c)" "tvgId c = attr_search (js ''tvg-id='') rest"
        by simp_all
      with True i Some m show ?thesis
        by (simp add: id_from_line_def or_default_truthy)
    next
      case False
      have "id' c = replace_ws (toLowerCase rt k)" if "k \<noteq> []"
      proof -
        have "replace_ws (toLowerCase rt k) \<noteq> []"
          using that lc by (simp add: replace_ws_nonempty)
        moreover have "tvgId c = Some (replace_ws (toLowerCase rt k))"
          using that tv t False by simp
        ultimately show ?thesis
          using i by (simp add: truthy_def or_default_def)
      qed
      then show ?thesis
        using False Some m k n by (auto simp: id_from_line_def)
    qed
  qed
qed

lemma parse_channels:
  assumes "parse rt content = Inr p"
  shows "channels p = st_channels (scan_lines rt (tl (map trim (split_nl content))))"
  using assms by (auto simp: parse_def Let_def split: list.splits if_splits)

lemma groupTitle_parseExtinf:
  "groupTitle (parseExtinf rt l) =
     (case extinf_search l of None \<Rightarrow> None
      | Some (d, rest) \<Rightarrow> attr_search (js ''group-title='') rest)"
  by (simp add: parseExtinf_def info0_def Let_def split: option.splits prod.splits)

lemma groupsSet_scan_line:
  "groupsSet (scan_line rt st l) = foldl set_add (groupsSet st) (declared_in_line l)"
proof -
  consider (extinf) "startsWith l (js ''#EXTINF:'')"
    | (extgrp) "\<not> startsWith l (js ''#EXTINF:'')" "startsWith l (js ''#EXTGRP:'')"
    | (other) "\<not> startsWith l (js ''#EXTINF:'')" "\<not> startsWith l (js ''#EXTGRP:'')"
    by blast
  then show ?thesis
  proof cases
    case extinf
    then show ?thesis
      by (auto simp: scan_line_def declared_in_line_def Let_def groupTitle_parseExtinf
          truthy_def or_default_def split: option.splits prod.splits)
  next
    case extgrp
    then show ?thesis
      by (simp add: scan_line_def declared_in_line_def Let_def)
  next
    case other
    then show ?thesis
      by (auto simp: scan_line_def declared_in_line_def Let_def split: option.splits)
  qed
qed

lemma groupsSet_foldl:
  "groupsSet (foldl (scan_line rt) st ls) = foldl set_add (groupsSet st) (declared_groups ls)"
  by (induction ls arbitrary: st) (simp_all add: declared_groups_def groupsSet_scan_line)

lemma remdups_later: "x \<in> set zs \<Longrightarrow> remdups (ys @ x # zs) = remdups (ys @ zs)"
  by (induction ys) auto

lemma foldl_set_add: "foldl set_add acc xs = first_seen (acc @ xs)" if "distinct acc"
  using that
proof (induction xs arbitrary: acc)
  case Nil
  then show ?case by (simp add: first_seen_def distinct_remdups_id)
next
  case (Cons x xs)
  show ?case
  proof (cases "x \<in> set acc")
    case True
    then have "remdups (rev xs @ x # rev acc) = remdups (rev xs @ rev acc)"
      by (simp add: remdups_later)
    with True Cons show ?thesis
      by (simp add: set_add_def first_seen_def)
  next
    case False
    with Cons.prems have "distinct (acc @ [x])" by simp
    from Cons.IH [OF this] False show ?thesis
      by (simp add: set_add_def)
  qed
qed

lemma groupsSet_scan_lines: "groupsSet (scan_lines rt ls) = first_seen (declared_groups ls)"
  using foldl_set_add [of "[]" "declared_groups ls"]
  by (simp add: scan_lines_def groupsSet_foldl init_state_def)

lemma set_first_seen: "set (first_seen xs) = set xs" and distinct_first_seen: "distinct (first_seen xs)"
  by (simp_all add: first_seen_def)

lemma make_group_count:
  "g \<in> set (map (make_group chs) (enumerate k gs))
     \<Longrightarrow> channelCount g = length (filter (\<lambda>c. groupTitle c = Some (group_name g)) chs)"
  by (auto simp: make_group_def)

lemma or_default_nonempty: "d \<noteq> [] \<Longrightarrow> or_default x d \<noteq> []"
  by (cases x) (auto simp: or_default_def)

lemma group_nonempty_scan_line:
  assumes "group_nonempty st"
  shows "group_nonempty (scan_line rt st l)"
proof -
  have "or_default a (or_default b (js ''Uncategorized'')) \<noteq> []" for a b
    by (intro or_default_nonempty) (simp add: js_def)
  with assms show ?thesis
    by (auto simp: group_nonempty_def scan_line_def Let_def make_channel_def
        split: option.splits)
qed

lemma group_nonempty_scan_lines: "group_nonempty (scan_lines rt ls)"
proof -
  have "group_nonempty st \<Longrightarrow> group_nonempty (foldl (scan_line rt) st ls)" for st
    by (induction ls arbitrary: st) (simp_all add: group_nonempty_scan_line)
  moreover have "group_nonempty init_state"
    by (simp add: group_nonempty_def init_state_def)
  ultimately show ?thesis
    by (simp add: scan_lines_def)
qed

lemma parseExtinf_falsy_name:
  assumes "\<not> truthy (tvgId (parseExtinf rt l))"
  shows "name (parseExtinf rt l) \<noteq> Some []"
proof (cases "extinf_search l")
  case None
  then show ?thesis
    by (simp add: parseExtinf_no_match info0_def)
next
  case (Some m)
  obtain d rest where "m = (d, rest)" by (cases m)
  with Some parseExtinf_match [of l d rest rt] obtain n where
    n: "name (parseExtinf rt l) = Some n"
    and t: "tvgId (parseExtinf rt l) =
         (if truthy (attr_search (js ''tvg-id='') rest) then attr_search (js ''tvg-id='') rest
          else Some (if n \<noteq> [] then replace_ws (toLowerCase rt n)
                     else js ''channel_'' @ number_toString (clock rt)))"
    by auto
  have "js ''channel_'' @ number_toString (clock rt) \<noteq> []"
    by (simp add: js_def)
  with assms t have "n \<noteq> []"
    by (auto simp: truthy_def split: if_splits)
  with n show ?thesis by simp
qed

lemma generateStableId_literal:
  assumes "nm \<noteq> Some []" "gp \<noteq> Some []"
  shows "generateStableId nm gp = spec_generateStableId nm gp"
proof -
  have d: "x \<noteq> Some [] \<Longrightarrow> or_default x (js ''unknown'') = spec_absent_default x" for x
    by (cases x) (simp_all add: or_default_def spec_absent_default_def)
  have "sint (foldl hash_step 0 s) = spec_hash s" for s
    using sint_foldl_hash_step [of 0 s] by (simp add: spec_hash_def)
  with assms show ?thesis
    by (simp add: generateStableId_def spec_generateStableId_def spec_stable_id_def Let_def d)
qed

section \<open>The claims\<close>

subsection \<open>C1: group accounting\<close>

text \<open>
  C1, amended: the returned group names are the names the lines after the header declare
  (by a non-empty \<open>group-title\<close> attribute or by an \<open>#EXTGRP\<close> line), each once, in the
  order of their first declaration; the sentinel is among them only if the text declares
  it. Each \<open>channelCount\<close> is the number of channels whose \<open>groupTitle\<close> is the group's
  name, and every channel's \<open>groupTitle\<close> is a declared name or the sentinel
  \<open>Uncategorized\<close>. So the sum of \<open>channelCount\<close> over the groups, plus the number of
  channels on the sentinel when the text does not declare a group of that name, equals
  the number of channels.
\<close>

theorem group_counts_cover_declared_groups:
  assumes "parse rt content = Inr p"
  shows "map group_name (groups p)
           = first_seen (declared_groups (tl (map trim (split_nl content))))
         \<and> distinct (map group_name (groups p))
         \<and> (\<forall>g \<in> set (groups p).
               channelCount g
                 = length (filter (\<lambda>c. groupTitle c = Some (group_name g)) (channels p)))
         \<and> (\<forall>c \<in> set (channels p).
               groupTitle c = Some (js ''Uncategorized'')
               \<or> groupTitle c \<in> Some ` set (declared_groups (tl (map trim (split_nl content)))))
         \<and> sum_list (map channelCount (groups p))
             + (if js ''Uncategorized''
                     \<in> set (declared_groups (tl (map trim (split_nl content)))) then 0
                else length (filter (\<lambda>c. groupTitle c = Some (js ''Uncategorized''))
                               (channels p)))
             = length (channels p)"
proof -
  from assms obtain l0 ls where ls: "map trim (split_nl content) = l0 # ls"
    and ch: "channels p = st_channels (scan_lines rt ls)"
    and gr: "groups p = map (make_group (st_channels (scan_lines rt ls)))
                      (enumerate 0 (groupsSet (scan_lines rt ls)))"
    by (rule parse_Inr)
  define st where "st = scan_lines rt ls"
  have inv: "group_inv st"
    unfolding st_def by (rule group_inv_scan_lines)
  have gs: "groupsSet st = first_seen (declared_groups ls)"
    unfolding st_def by (rule groupsSet_scan_lines)
  note ch = ch [folded st_def] and gr = gr [folded st_def]
  let ?cs = "st_channels st" and ?gs = "groupsSet st"
  have d: "distinct ?gs" using inv by (simp add: group_inv_def)
  have names: "map group_name (groups p) = ?gs"
    unfolding gr by (rule map_group_name)
  have counts: "\<forall>g \<in> set (groups p).
      channelCount g = length (filter (\<lambda>c. groupTitle c = Some (group_name g)) ?cs)"
    unfolding gr using make_group_count by blast
  have sum: "sum_list (map channelCount (groups p))
      = length (filter (\<lambda>c. groupTitle c \<in> Some ` set ?gs) ?cs)"
    unfolding gr map_channelCount using sum_counts_distinct [OF d, of groupTitle ?cs] by simp
  have cover: "\<forall>c \<in> set ?cs. groupTitle c \<in> Some ` set ?gs
      \<or> groupTitle c = Some (js ''Uncategorized'')"
    using inv by (auto simp: group_inv_def)
  have "length (filter (\<lambda>c. groupTitle c \<in> Some ` set ?gs) ?cs)
      + (if js ''Uncategorized'' \<in> set ?gs then 0
         else length (filter (\<lambda>c. groupTitle c = Some (js ''Uncategorized'')) ?cs))
      = length ?cs"
  proof (cases "js ''Uncategorized'' \<in> set ?gs")
    case True
    with cover have "filter (\<lambda>c. groupTitle c \<in> Some ` set ?gs) ?cs = ?cs"
      by (auto simp: filter_id_conv)
    with True show ?thesis by simp
  next
    case False
    with cover have "filter (\<lambda>c. groupTitle c \<in> Some ` set ?gs) ?cs
        = filter (\<lambda>c. \<not> groupTitle c = Some (js ''Uncategorized'')) ?cs"
      by (intro filter_cong) auto
    then show ?thesis
      using False
        sum_length_filter_compl [of "\<lambda>c. groupTitle c = Some (js ''Uncategorized'')" ?cs]
      by simp
  qed
  with sum have total: "sum_list (map channelCount (groups p))
      + (if js ''Uncategorized'' \<in> set ?gs then 0
         else length (filter (\<lambda>c. groupTitle c = Some (js ''Uncategorized'')) ?cs))
      = length ?cs"
    by simp
  have s: "set ?gs = set (declared_groups ls)"
    by (simp add: gs set_first_seen)
  have cover': "\<forall>c \<in> set ?cs. groupTitle c = Some (js ''Uncategorized'')
      \<or> groupTitle c \<in> Some ` set (declared_groups ls)"
    using cover unfolding s by blast
  have total': "sum_list (map channelCount (groups p))
      + (if js ''Uncategorized'' \<in> set (declared_groups ls) then 0
         else length (filter (\<lambda>c. groupTitle c = Some (js ''Uncategorized'')) ?cs))
      = length ?cs"
    using total unfolding s .
  have names': "map group_name (groups p) = first_seen (declared_groups ls)"
    using names gs by simp
  have d': "distinct (map group_name (groups p))"
    using names d by simp
  have tl: "tl (map trim (split_nl content)) = ls"
    using ls by simp
  show ?thesis
    unfolding tl ch using names' d' counts cover' total' by blast
qed

theorem group_counts_cover_declared_groups_witness:
  "group_total (parse (run_at 0)
      (js ''#EXTM3U'' @ [10] @ js ''#EXTINF:-1,Channel A'' @ [10] @ js ''http://a'' @ [10]
        @ js ''#EXTGRP:News'' @ [10] @ js ''#EXTINF:-1,Channel B'' @ [10] @ js ''http://b''))
     + 1 = 2
   \<and> declared_groups
        [js ''#EXTINF:-1,Channel A'', js ''http://a'', js ''#EXTGRP:News'',
         js ''#EXTINF:-1,Channel B'', js ''http://b''] = [js ''News'']"
proof -
  have run: "parse (run_at 0)
      (js ''#EXTM3U'' @ [10] @ js ''#EXTINF:-1,Channel A'' @ [10] @ js ''http://a'' @ [10]
        @ js ''#EXTGRP:News'' @ [10] @ js ''#EXTINF:-1,Channel B'' @ [10] @ js ''http://b'')
    = Inr \<lparr>channels =
        [\<lparr>duration = js ''-1'', tvgId = Some (js ''channel_a''), tvgName = None,
          tvgLogo = None, groupTitle = Some (js ''Uncategorized''),
          name = Some (js ''Channel A''), id' = js ''channel_a'', url = js ''http://a''\<rparr>,
         \<lparr>duration = js ''-1'', tvgId = Some (js ''channel_b''), tvgName = None,
          tvgLogo = None, groupTitle = Some (js ''News''),
          name = Some (js ''Channel B''), id' = js ''channel_b'', url = js ''http://b''\<rparr>],
       groups = [\<lparr>group_id = js ''group_0'', group_name = js ''News'', channelCount = 1\<rparr>]\<rparr>"
    by (simp add: run_defs)
  have decl: "declared_groups
        [js ''#EXTINF:-1,Channel A'', js ''http://a'', js ''#EXTGRP:News'',
         js ''#EXTINF:-1,Channel B'', js ''http://b''] = [js ''News'']"
    by (simp add: declared_groups_def declared_in_line_def run_defs)
  show ?thesis
    unfolding run using group_counts_cover_declared_groups [OF run] decl
    by (simp add: group_total_def)
qed

text \<open>
  The claim as stated fails on a single entry without a group: one channel, no group.
\<close>

theorem group_counts_miss_uncategorized_counterexample:
  "group_total (parse (run_at 0)
      (js ''#EXTM3U'' @ [10] @ js ''#EXTINF:-1,Channel A'' @ [10] @ js ''http://a'')) = 0
   \<and> channel_total (parse (run_at 0)
      (js ''#EXTM3U'' @ [10] @ js ''#EXTINF:-1,Channel A'' @ [10] @ js ''http://a'')) = 1"
  by (simp add: group_total_def channel_total_def run_defs)

subsection \<open>C2: where the id of a channel comes from\<close>

text \<open>
  C2, amended: the emitted channels are, in order, the entries of the text: each URL line
  paired with the metadata line pending when the scan reaches it. For each channel, if
  the duration pattern matches its metadata line and the \<open>tvg-id\<close> attribute is
  present and non-empty, the id is the attribute; if the attribute is absent or empty and
  the display name is non-empty, the id is the lower-cased name with each run of white
  space replaced by an underscore, not the stable hash. If the duration pattern does not
  match the line, no attribute is read and the id is the stable hash of an absent name
  and the groupTitle. (Lower-casing is assumed not to empty a non-empty string.)
\<close>

theorem channel_id_from_attribute_or_name:
  assumes "parse rt content = Inr p"
    and lc: "\<forall>s. s \<noteq> [] \<longrightarrow> toLowerCase rt s \<noteq> []"
  shows "list_all2
           (\<lambda>c e. url c = snd e \<and> name c = name (parseExtinf rt (fst e))
                  \<and> id_from_line rt c (fst e))
           (channels p) (entries_from None (tl (map trim (split_nl content))))"
proof -
  have "built_from rt c e \<Longrightarrow> url c = snd e \<and> name c = name (parseExtinf rt (fst e))
      \<and> id_from_line rt c (fst e)" for c e
    using built_from_id_from_line [OF lc, of c "fst e" "snd e"]
    by (simp add: built_from_def)
  then show ?thesis
    unfolding parse_channels [OF assms(1)]
    by (intro list_all2_mono [OF channels_built_from_entries]) blast
qed

theorem channel_id_from_attribute_or_name_witness:
  "ids (parse (run_at 0)
      (js ''#EXTM3U'' @ [10] @ js ''#EXTINF:-1 tvg-id='' @ [34] @ js ''bbc1'' @ [34]
        @ js '' group-title='' @ [34] @ js ''News'' @ [34] @ js '',BBC One'' @ [10]
        @ js ''http://a'' @ [10] @ js ''#EXTINF:-1,Channel B'' @ [10] @ js ''http://b''))
     = [js ''bbc1'', js ''channel_b'']"
proof -
  let ?a = "\<lparr>duration = js ''-1'', tvgId = Some (js ''bbc1''), tvgName = None,
          tvgLogo = None, groupTitle = Some (js ''News''),
          name = Some (js ''BBC One''), id' = js ''bbc1'', url = js ''http://a''\<rparr>"
  let ?b = "\<lparr>duration = js ''-1'', tvgId = Some (js ''channel_b''), tvgName = None,
          tvgLogo = None, groupTitle = Some (js ''News''),
          name = Some (js ''Channel B''), id' = js ''channel_b'', url = js ''http://b''\<rparr>"
  have run: "parse (run_at 0)
      (js ''#EXTM3U'' @ [10] @ js ''#EXTINF:-1 tvg-id='' @ [34] @ js ''bbc1'' @ [34]
        @ js '' group-title='' @ [34] @ js ''News'' @ [34] @ js '',BBC One'' @ [10]
        @ js ''http://a'' @ [10] @ js ''#EXTINF:-1,Channel B'' @ [10] @ js ''http://b'')
    = Inr \<lparr>channels = [?a, ?b],
       groups = [\<lparr>group_id = js ''group_0'', group_name = js ''News'', channelCount = 2\<rparr>]\<rparr>"
    by (simp add: run_defs)
  show ?thesis
    using channel_id_from_attribute_or_name [OF run ascii_lower_nonempty]
    unfolding run by (simp add: ids_def)
qed

text \<open>
  The claim as stated fails on an entry without \<open>tvg-id\<close>: the id is derived from the
  name, and the stable hash of name and groupTitle is another string.
\<close>

theorem channel_id_from_name_counterexample:
  "ids (parse (run_at 0)
      (js ''#EXTM3U'' @ [10] @ js ''#EXTINF:-1,Channel A'' @ [10] @ js ''http://a''))
     = [js ''channel_a'']
   \<and> generateStableId (Some (js ''Channel A'')) (Some (js ''Uncategorized''))
     = js ''m3u_q1wdlo''"
  by (simp add: ids_def run_defs)

subsection \<open>C3: identifier stability across two runs\<close>

text \<open>
  C3 says that two calls of \<open>parse\<close> on the same text give the same \<open>id\<close> values,
  also for channels without a \<open>tvg-id\<close> attribute. For an entry whose display name is
  empty, \<open>parseExtinf\<close> builds the identifier from \<open>Date.now()\<close>: the text below,
  parsed at two instants one millisecond apart, gives two different identifiers.
\<close>

theorem parse_timestamp_id_differs_between_runs:
  "ids (parse (run_at 1700000000000)
          (js ''#EXTM3U'' @ [10] @ js ''#EXTINF:-1,'' @ [10] @ js ''http://a''))
     = [js ''channel_1700000000000'']
   \<and> ids (parse (run_at 1700000000001)
          (js ''#EXTM3U'' @ [10] @ js ''#EXTINF:-1,'' @ [10] @ js ''http://a''))
     = [js ''channel_1700000000001'']"
  by (simp add: ids_def run_defs)

subsection \<open>C4: current and upcoming programmes\<close>

text \<open>
  C4, amended: \<open>getCurrentAndUpcoming\<close> takes \<open>programmes\<close>, \<open>channelId\<close> and
  \<open>count\<close>; the reference time is not an argument but the clock reading at the call.
  For every list of programmes in which no programme of the channel has an invalid start
  date, every clock reading and every count \<open>n\<close>, it returns as \<open>current\<close> the first
  programme airing at the clock reading among the programmes of the channel in ascending
  order of start (nothing if none is airing), and as \<open>upcoming\<close> the first \<open>n\<close> of those
  that start after the clock reading, in that order. The order is sorted by start, a
  permutation of the channel's programmes, and keeps programmes of equal start in their
  input order; a missing start or stop counts as time 0. So \<open>current\<close> has the least
  start among the airing programmes of the channel, and \<open>upcoming\<close> holds the \<open>n\<close>
  earliest later programmes (all of them if there are fewer). Without a count, the count
  is 5.
\<close>

theorem getCurrentAndUpcoming_current_and_upcoming:
  assumes v: "valid_starts ps cid"
  shows "current (getCurrentAndUpcoming rt ps cid (Some (int n)))
     = spec_current ps cid (clock rt)
   \<and> upcoming (getCurrentAndUpcoming rt ps cid (Some (int n)))
     = spec_upcoming ps cid (clock rt) n
   \<and> getCurrentAndUpcoming rt ps cid None = getCurrentAndUpcoming rt ps cid (Some 5)
   \<and> sorted (map start_number (in_start_order ps cid))
   \<and> mset (in_start_order ps cid) = mset (filter (\<lambda>p. channelId p = cid) ps)
   \<and> (\<forall>k. filter (\<lambda>p. start_number p = k) (in_start_order ps cid)
            = filter (\<lambda>p. start_number p = k) (filter (\<lambda>p. channelId p = cid) ps))
   \<and> (current (getCurrentAndUpcoming rt ps cid (Some (int n))) = None
        \<longleftrightarrow> \<not> (\<exists>p \<in> set ps. channelId p = cid \<and> airing_at (clock rt) p))
   \<and> (\<forall>p. current (getCurrentAndUpcoming rt ps cid (Some (int n))) = Some p
        \<longrightarrow> p \<in> set ps \<and> channelId p = cid \<and> airing_at (clock rt) p
            \<and> (\<forall>q \<in> set ps. channelId q = cid \<and> airing_at (clock rt) q
                   \<longrightarrow> start_number p \<le> start_number q))
   \<and> sorted (map start_number (upcoming (getCurrentAndUpcoming rt ps cid (Some (int n)))))
   \<and> length (upcoming (getCurrentAndUpcoming rt ps cid (Some (int n))))
        = min n (length (filter (\<lambda>p. channelId p = cid \<and> starts_after (clock rt) p) ps))
   \<and> (\<exists>rest. mset (upcoming (getCurrentAndUpcoming rt ps cid (Some (int n)))) + mset rest
                 = mset (filter (\<lambda>p. channelId p = cid \<and> starts_after (clock rt) p) ps)
             \<and> (\<forall>p \<in> set (upcoming (getCurrentAndUpcoming rt ps cid (Some (int n)))).
                   \<forall>q \<in> set rest. start_number p \<le> start_number q))"
proof -
  let ?now = "clock rt"
  let ?cps = "in_start_order ps cid"
  let ?r = "getCurrentAndUpcoming rt ps cid (Some (int n))"
  let ?later = "filter (starts_after ?now) ?cps"
  note c = current_eq [OF v, of rt "Some (int n)"]
  note u = upcoming_eq [OF v, of rt n]
  have c': "current ?r = find (airing_at ?now) ?cps"
    by (simp add: c spec_current_def)
  have u': "upcoming ?r = take n ?later"
    by (simp add: u spec_upcoming_def)
  have d: "getCurrentAndUpcoming rt ps cid None = getCurrentAndUpcoming rt ps cid (Some 5)"
    by (simp add: getCurrentAndUpcoming_def)
  have stable: "\<forall>k. filter (\<lambda>p. start_number p = k) ?cps
            = filter (\<lambda>p. start_number p = k) (filter (\<lambda>p. channelId p = cid) ps)"
    by (simp add: in_start_order_def sort_key_stable)
  have none: "current ?r = None
        \<longleftrightarrow> \<not> (\<exists>p \<in> set ps. channelId p = cid \<and> airing_at ?now p)"
    by (auto simp: c' find_None_iff in_start_order_set)
  have some: "\<forall>p. current ?r = Some p
        \<longrightarrow> p \<in> set ps \<and> channelId p = cid \<and> airing_at ?now p
            \<and> (\<forall>q \<in> set ps. channelId q = cid \<and> airing_at ?now q
                  \<longrightarrow> start_number p \<le> start_number q)"
  proof (intro allI impI)
    fix p assume "current ?r = Some p"
    then have f: "find (airing_at ?now) ?cps = Some p"
      by (simp add: c')
    then have "p \<in> set ?cps \<and> airing_at ?now p"
      by (auto simp: find_Some_iff)
    moreover have "start_number p \<le> start_number q"
      if "q \<in> set ps" "channelId q = cid" "airing_at ?now q" for q
      using find_sorted_least [OF in_start_order_sorted f, of q] that
      by (simp add: in_start_order_set)
    ultimately show "p \<in> set ps \<and> channelId p = cid \<and> airing_at ?now p
            \<and> (\<forall>q \<in> set ps. channelId q = cid \<and> airing_at ?now q
                  \<longrightarrow> start_number p \<le> start_number q)"
      by (auto simp: in_start_order_set)
  qed
  have sl: "sorted (map start_number ?later)"
    using in_start_order_sorted [of ps cid] by (simp add: sorted_map sorted_wrt_filter)
  then have su: "sorted (map start_number (upcoming ?r))"
    by (simp add: u' sorted_map sorted_wrt_take)
  have ml: "mset ?later = mset (filter (\<lambda>p. channelId p = cid \<and> starts_after ?now p) ps)"
    by (simp add: in_start_order_mset filter_filter_mset conj_commute)
  then have "length ?later = length (filter (\<lambda>p. channelId p = cid \<and> starts_after ?now p) ps)"
    by (metis size_mset)
  then have len: "length (upcoming ?r)
        = min n (length (filter (\<lambda>p. channelId p = cid \<and> starts_after ?now p) ps))"
    by (simp add: u' min.commute)
  have "mset (upcoming ?r) + mset (drop n ?later)
          = mset (filter (\<lambda>p. channelId p = cid \<and> starts_after ?now p) ps)
        \<and> (\<forall>p \<in> set (upcoming ?r). \<forall>q \<in> set (drop n ?later).
              start_number p \<le> start_number q)"
    using take_drop_sorted [OF sl, of n] ml
    by (simp add: u' flip: mset_append)
  then have rest: "\<exists>rest. mset (upcoming ?r) + mset rest
                 = mset (filter (\<lambda>p. channelId p = cid \<and> starts_after ?now p) ps)
             \<and> (\<forall>p \<in> set (upcoming ?r). \<forall>q \<in> set rest. start_number p \<le> start_number q)"
    by blast
  show ?thesis
    using c u d in_start_order_sorted [of ps cid] in_start_order_mset [of ps cid]
      stable none some su len rest
    by blast
qed

theorem getCurrentAndUpcoming_current_and_upcoming_witness:
  "current (getCurrentAndUpcoming (run_at 150)
      [prog (js ''bbc'') 300 400 (js ''C''), prog (js ''itv'') 0 1000 (js ''X''),
       prog (js ''bbc'') 100 200 (js ''A''), prog (js ''bbc'') 200 300 (js ''B'')]
      (js ''bbc'') (Some 1))
     = Some (prog (js ''bbc'') 100 200 (js ''A''))
   \<and> upcoming (getCurrentAndUpcoming (run_at 150)
      [prog (js ''bbc'') 300 400 (js ''C''), prog (js ''itv'') 0 1000 (js ''X''),
       prog (js ''bbc'') 100 200 (js ''A''), prog (js ''bbc'') 200 300 (js ''B'')]
      (js ''bbc'') (Some 1))
     = [prog (js ''bbc'') 200 300 (js ''B'')]"
proof -
  have v: "valid_starts
      [prog (js ''bbc'') 300 400 (js ''C''), prog (js ''itv'') 0 1000 (js ''X''),
       prog (js ''bbc'') 100 200 (js ''A''), prog (js ''bbc'') 200 300 (js ''B'')]
      (js ''bbc'')"
    by (simp add: valid_starts_def prog_def)
  note t = getCurrentAndUpcoming_current_and_upcoming [OF v, of "run_at 150" 1]
  from t [THEN conjunct1] t [THEN conjunct2, THEN conjunct1] show ?thesis
    by (simp add: sched_defs)
qed

text \<open>
  The claim as stated takes the reference time as an argument. A call with the arguments
  \<open>programmes\<close>, \<open>channelId\<close>, reference time 150 and count 1 resolves against the
  clock, here 999, and finds no current programme where the contract names one; and even
  when the clock reads 150, the reference time is taken for the count, so both later
  programmes are returned instead of one.
\<close>

theorem reference_time_argument_counterexample:
  "current (call_as_specified (run_at 999)
      [prog (js ''bbc'') 300 400 (js ''C''), prog (js ''bbc'') 100 200 (js ''A''),
       prog (js ''bbc'') 200 300 (js ''B'')] (js ''bbc'') 150 1) = None
   \<and> spec_current
      [prog (js ''bbc'') 300 400 (js ''C''), prog (js ''bbc'') 100 200 (js ''A''),
       prog (js ''bbc'') 200 300 (js ''B'')] (js ''bbc'') 150
     = Some (prog (js ''bbc'') 100 200 (js ''A''))
   \<and> upcoming (call_as_specified (run_at 150)
      [prog (js ''bbc'') 300 400 (js ''C''), prog (js ''bbc'') 100 200 (js ''A''),
       prog (js ''bbc'') 200 300 (js ''B'')] (js ''bbc'') 150 1)
     = [prog (js ''bbc'') 200 300 (js ''B''), prog (js ''bbc'') 300 400 (js ''C'')]
   \<and> spec_upcoming
      [prog (js ''bbc'') 300 400 (js ''C''), prog (js ''bbc'') 100 200 (js ''A''),
       prog (js ''bbc'') 200 300 (js ''B'')] (js ''bbc'') 150 1
     = [prog (js ''bbc'') 200 300 (js ''B'')]"
  by (simp add: sched_defs)

subsection \<open>C5: the only failure of parse\<close>

text \<open>
  C5, amended: \<open>parse\<close> raises exactly when the first line of the text (up to the first
  line feed), with surrounding white space trimmed, does not begin with \<open>#EXTM3U\<close>;
  in particular it raises when that line is blank, whatever follows. Nothing else makes
  it raise. A URL line met while no descriptor is pending leaves the scan state as it is,
  so it emits no channel.
\<close>

theorem parse_raises_iff_first_line_lacks_header:
  "(isl (parse rt content) \<longleftrightarrow>
      \<not> startsWith (trim (takeWhile (\<lambda>c. c \<noteq> 10) content)) (js ''#EXTM3U''))
   \<and> (currentInfo st = None \<and> line \<noteq> [] \<and> \<not> startsWith line (js ''#'')
        \<longrightarrow> scan_line rt st line = st)"
proof
  have "\<not> startsWith [] (js ''#EXTM3U'')"
    by (simp add: startsWith_def js_def)
  moreover obtain ls where "split_nl content = takeWhile (\<lambda>c. c \<noteq> 10) content # ls"
    using hd_split_nl by blast
  ultimately show "isl (parse rt content) \<longleftrightarrow>
      \<not> startsWith (trim (takeWhile (\<lambda>c. c \<noteq> 10) content)) (js ''#EXTM3U'')"
    by (auto simp: parse_def Let_def)
next
  have "\<not> startsWith line (js ''#'')
      \<Longrightarrow> \<not> startsWith line (js ''#EXTINF:'') \<and> \<not> startsWith line (js ''#EXTGRP:'')"
    by (cases line) (auto simp: startsWith_def js_def)
  then show "currentInfo st = None \<and> line \<noteq> [] \<and> \<not> startsWith line (js ''#'')
        \<longrightarrow> scan_line rt st line = st"
    by (auto simp: scan_line_def)
qed

theorem parse_raises_iff_first_line_lacks_header_witness:
  "isl (parse (run_at 0) (js ''#EXTINF:-1,Channel A'' @ [10] @ js ''http://a'' @ [10]))
   \<and> \<not> isl (parse (run_at 0) (js ''#EXTM3U'' @ [10] @ js ''http://a''))
   \<and> scan_line (run_at 0) init_state (js ''http://a'') = init_state"
  using parse_raises_iff_first_line_lacks_header
      [of "run_at 0" "js ''#EXTINF:-1,Channel A'' @ [10] @ js ''http://a'' @ [10]"
          init_state "js ''http://a''"]
    parse_raises_iff_first_line_lacks_header
      [of "run_at 0" "js ''#EXTM3U'' @ [10] @ js ''http://a''"
          init_state "js ''http://a''"]
  by (simp add: js_def startsWith_def trim_def is_ws_def init_state_def)

text \<open>
  The claim as stated fails on a text whose first line is blank: its first non-empty
  line is the marker, and \<open>parse\<close> raises all the same.
\<close>

theorem parse_blank_first_line_counterexample:
  "isl (parse (run_at 0)
          ([10] @ js ''#EXTM3U'' @ [10] @ js ''#EXTINF:-1,Channel A'' @ [10] @ js ''http://a''))
   \<and> spec_header_ok
          ([10] @ js ''#EXTM3U'' @ [10] @ js ''#EXTINF:-1,Channel A'' @ [10] @ js ''http://a'')"
  by (simp add: spec_header_ok_def run_defs)

subsection \<open>C6: the number of channels\<close>

text \<open>
  C6, amended: for every text accepted by \<open>parse\<close>, the number of channels equals the
  number of metadata lines that are followed by a URL line when blank lines and all lines
  starting with \<open>#\<close> other than metadata lines (group overrides and any other
  directive or comment) are passed over.
\<close>

theorem channel_count_is_entries_followed_by_url:
  assumes "parse rt content = Inr p"
  shows "length (channels p)
           = count_entries blank_or_comment (tl (map trim (split_nl content)))"
proof -
  from assms obtain l0 ls where "map trim (split_nl content) = l0 # ls"
    and "channels p = st_channels (scan_lines rt ls)"
    by (auto simp: parse_def Let_def split: list.splits if_splits)
  then show ?thesis
    using length_channels_foldl [of rt init_state ls]
    by (simp add: scan_lines_def init_state_def)
qed

theorem channel_count_is_entries_followed_by_url_witness:
  "count_entries blank_or_comment
      (tl (map trim (split_nl
        (js ''#EXTM3U'' @ [10] @ js ''#EXTINF:-1,Channel A'' @ [10] @ js ''#EXTVLCOPT:x''
          @ [10] @ js ''http://a'' @ [10] @ js ''http://b'')))) = 1"
proof -
  have run: "parse (run_at 0)
      (js ''#EXTM3U'' @ [10] @ js ''#EXTINF:-1,Channel A'' @ [10] @ js ''#EXTVLCOPT:x''
          @ [10] @ js ''http://a'' @ [10] @ js ''http://b'')
    = Inr \<lparr>channels =
        [\<lparr>duration = js ''-1'', tvgId = Some (js ''channel_a''), tvgName = None,
          tvgLogo = None, groupTitle = Some (js ''Uncategorized''),
          name = Some (js ''Channel A''), id' = js ''channel_a'', url = js ''http://a''\<rparr>],
       groups = []\<rparr>"
    by (simp add: run_defs)
  show ?thesis
    using channel_count_is_entries_followed_by_url [OF run] by simp
qed

text \<open>
  The claim as stated fails when another directive stands between the metadata line and
  the URL: the channel is emitted, and passing over blank and group-override lines only
  finds no URL line after the metadata line.
\<close>

theorem channel_count_comment_between_counterexample:
  "channel_total (parse (run_at 0)
      (js ''#EXTM3U'' @ [10] @ js ''#EXTINF:-1,Channel A'' @ [10] @ js ''#EXTVLCOPT:x''
        @ [10] @ js ''http://a'')) = 1
   \<and> spec_entry_total
      (js ''#EXTM3U'' @ [10] @ js ''#EXTINF:-1,Channel A'' @ [10] @ js ''#EXTVLCOPT:x''
        @ [10] @ js ''http://a'') = 0"
  by (simp add: channel_total_def spec_entry_total_def is_extinf_def is_url_def
      followed_by_url_def blank_or_extgrp_def run_defs)

subsection \<open>C7: text extraction from a list of entries\<close>

text \<open>
  C7, amended: for a list, \<open>extractText\<close> returns the extraction of the first entry
  that is tagged as English or has no language tag, whichever of the two kinds comes
  first in the list; if that entry is the empty string, or if the list has no such
  entry, it returns the extraction of the first entry of the list (nothing for an empty
  list). English is not preferred over an untagged entry that precedes it.
\<close>

theorem extractText_first_english_or_untagged:
  "(i < length es \<and> en_or_untagged (es ! i) \<and> (\<forall>j<i. \<not> en_or_untagged (es ! j))
      \<longrightarrow> extractText (Some (Arr es))
            = (if es ! i = Str [] then extractText (first_elem es)
               else extractText (Some (es ! i))))
   \<and> ((\<forall>e \<in> set es. \<not> en_or_untagged e)
      \<longrightarrow> extractText (Some (Arr es)) = extractText (first_elem es))"
proof (intro conjI impI)
  assume "i < length es \<and> en_or_untagged (es ! i) \<and> (\<forall>j<i. \<not> en_or_untagged (es ! j))"
  then have "find en_or_untagged es = Some (es ! i)"
    by (simp add: find_first_index)
  then show "extractText (Some (Arr es))
            = (if es ! i = Str [] then extractText (first_elem es)
               else extractText (Some (es ! i)))"
    by (simp add: en_or_first_def elem_truthy_iff)
next
  assume "\<forall>e \<in> set es. \<not> en_or_untagged e"
  then have "find en_or_untagged es = None"
    by (simp add: find_None_iff)
  then show "extractText (Some (Arr es)) = extractText (first_elem es)"
    by (simp add: en_or_first_def)
qed

theorem extractText_first_english_or_untagged_witness:
  "extractText (Some (Arr [Obj (Some (js ''Titre'')) None (Some (js ''fr'')),
                           Obj (Some (js ''Titel'')) None None,
                           Obj (Some (js ''Title'')) None (Some (js ''en''))]))
     = Some (js ''Titel'')
   \<and> extractText (Some (Arr [Obj (Some (js ''Titre'')) None (Some (js ''fr'')),
                            Obj (Some (js ''Titel'')) None (Some (js ''de''))]))
     = Some (js ''Titre'')"
  using extractText_first_english_or_untagged
      [of 1 "[Obj (Some (js ''Titre'')) None (Some (js ''fr'')),
              Obj (Some (js ''Titel'')) None None,
              Obj (Some (js ''Title'')) None (Some (js ''en''))]"]
    extractText_first_english_or_untagged
      [of 0 "[Obj (Some (js ''Titre'')) None (Some (js ''fr'')),
              Obj (Some (js ''Titel'')) None (Some (js ''de''))]"]
  by (simp add: en_or_untagged_def first_elem_def truthy_def js_def)

text \<open>
  The claim as stated fails on a list with an untagged entry before the English one.
\<close>

theorem extractText_untagged_before_english_counterexample:
  "extractText (Some (Arr [Obj (Some (js ''Titel'')) None None,
                           Obj (Some (js ''Title'')) None (Some (js ''en''))]))
     = Some (js ''Titel'')
   \<and> extractText (spec_preferred [Obj (Some (js ''Titel'')) None None,
                           Obj (Some (js ''Title'')) None (Some (js ''en''))])
     = Some (js ''Title'')"
  by (simp add: text_defs)

subsection \<open>C8: date normalization\<close>

text \<open>
  C8, amended: for a string of fourteen digits \<open>YYYYMMDDHHMMSS\<close>, optionally followed
  by white space and by a signed four-digit offset of at most 23 hours and 59 minutes:
  if the fields name a calendar date and a time of day (month 01 to 12, day within the
  month, hour at most 23, minute and second at most 59), \<open>parseXmltvDate\<close> returns the
  instant of the calendar fields interpreted in that offset, or in UTC when there is no
  offset; if the month is not 01 to 12, it returns an invalid date. The first witness is
  the example of the specification, \<open>20231225120000 +0000\<close>, which resolves to
  1703505600000 milliseconds after the epoch, that is 2023-12-25T12:00:00 UTC.
\<close>

theorem parseXmltvDate_instant:
  assumes "length Y = 4" "length Mo = 2" "length D = 2" "length H = 2" "length Mi = 2"
    "length S = 2"
    and "list_all is_digit (Y @ Mo @ D @ H @ Mi @ S)"
    and "list_all is_ws ws" and "well_formed_offset tz"
  shows "(fields_valid (num Y) (num Mo) (num D) (num H) (num Mi) (num S)
            \<longrightarrow> parseXmltvDate rt (Some (Y @ Mo @ D @ H @ Mi @ S @ ws @ tz))
                  = Some (Date (spec_instant Y Mo D H Mi S tz)))
       \<and> (\<not> (1 \<le> num Mo \<and> num Mo \<le> 12)
            \<longrightarrow> parseXmltvDate rt (Some (Y @ Mo @ D @ H @ Mi @ S @ ws @ tz))
                  = Some Invalid_Date)"
proof -
  from assms(1-6) obtain y1 y2 y3 y4 m1 m2 d1 d2 h1 h2 i1 i2 s1 s2 where
    e: "Y = [y1, y2, y3, y4]" "Mo = [m1, m2]" "D = [d1, d2]" "H = [h1, h2]" "Mi = [i1, i2]"
       "S = [s1, s2]"
    by (metis len2 len4)
  have m: "xmltv_match (Y @ Mo @ D @ H @ Mi @ S @ ws @ tz)
           = Some (Y, Mo, D, H, Mi, S, if tz = [] then None else Some tz)"
    using assms(1-9) by (rule xmltv_match_fields)
  have ne: "truthy (Some (Y @ Mo @ D @ H @ Mi @ S @ ws @ tz))"
    by (simp add: truthy_def e)
  have od: "or_default (Some (Y @ Mo @ D @ H @ Mi @ S @ ws @ tz)) []
      = Y @ Mo @ D @ H @ Mi @ S @ ws @ tz"
    by (simp add: or_default_def)
  have dg: "list_all is_digit [y1, y2, y3, y4, m1, m2, d1, d2, h1, h2, i1, i2, s1, s2]"
    using assms(7) by (simp add: e)
  let ?z = "if tz = [] then js ''Z'' else take 3 tz @ js '':'' @ drop 3 tz"
  have oz: "iso_offset ?z = Some (spec_offset_minutes tz)"
    using iso_offset_colon [OF assms(9)] iso_offset_Z
    by (simp add: spec_offset_minutes_def)
  have built: "parseXmltvDate rt (Some (Y @ Mo @ D @ H @ Mi @ S @ ws @ tz))
      = Some (new_Date rt (Y @ js ''-'' @ Mo @ js ''-'' @ D @ js ''T''
           @ H @ js '':'' @ Mi @ js '':'' @ S @ ?z))"
    unfolding parseXmltvDate_def using ne by (simp add: od m Let_def)
  have valid: "parseXmltvDate rt (Some (Y @ Mo @ D @ H @ Mi @ S @ ws @ tz))
      = Some (Date (spec_instant Y Mo D H Mi S tz))"
    if "fields_valid (num Y) (num Mo) (num D) (num H) (num Mi) (num S)"
  proof -
    have fv: "fields_valid (num [y1, y2, y3, y4]) (num [m1, m2]) (num [d1, d2])
        (num [h1, h2]) (num [i1, i2]) (num [s1, s2])"
      using that by (simp add: e)
    show ?thesis
      unfolding built unfolding e new_Date_def spec_instant_def
      using iso_parse_built [OF dg fv oz] by simp
  qed
  have illegal: "parseXmltvDate rt (Some (Y @ Mo @ D @ H @ Mi @ S @ ws @ tz))
      = Some Invalid_Date"
    if "\<not> (1 \<le> num Mo \<and> num Mo \<le> 12)"
  proof -
    have mi: "\<not> (1 \<le> num [m1, m2] \<and> num [m1, m2] \<le> 12)"
      using that by (simp add: e)
    show ?thesis
      unfolding built unfolding e new_Date_def
      using iso_month_illegal_built [OF dg mi oz] by simp
  qed
  from valid illegal show ?thesis by blast
qed

theorem parseXmltvDate_instant_witness:
  "parseXmltvDate (run_at 0) (Some (js ''20231225120000 +0000''))
     = Some (Date 1703505600000)
   \<and> parseXmltvDate (run_at 0) (Some (js ''20240229233000-0130''))
     = Some (Date 1709254800000)
   \<and> parseXmltvDate (run_at 0) (Some (js ''19700101000000''))
     = Some (Date 0)
   \<and> parseXmltvDate (run_at 0) (Some (js ''20230001120000''))
     = Some Invalid_Date"
  using parseXmltvDate_instant [where Y = "js ''2023''" and Mo = "js ''12''" and D = "js ''25''"
      and H = "js ''12''" and Mi = "js ''00''" and S = "js ''00''" and ws = "js '' ''"
      and tz = "js ''+0000''" and rt = "run_at 0"]
    parseXmltvDate_instant [where Y = "js ''2024''" and Mo = "js ''02''" and D = "js ''29''"
      and H = "js ''23''" and Mi = "js ''30''" and S = "js ''00''" and ws = "[]"
      and tz = "js ''-0130''" and rt = "run_at 0"]
    parseXmltvDate_instant [where Y = "js ''1970''" and Mo = "js ''01''" and D = "js ''01''"
      and H = "js ''00''" and Mi = "js ''00''" and S = "js ''00''" and ws = "[]"
      and tz = "[]" and rt = "run_at 0"]
    parseXmltvDate_instant [where Y = "js ''2023''" and Mo = "js ''00''" and D = "js ''01''"
      and H = "js ''12''" and Mi = "js ''00''" and S = "js ''00''" and ws = "[]"
      and tz = "[]" and rt = "run_at 0"]
  by (simp add: date_defs)

text \<open>
  The claim as stated fails on a string that matches the pattern and names no calendar
  date: with month 13 the function returns an invalid date, which is no instant.
\<close>

theorem parseXmltvDate_month_13_counterexample:
  "xmltv_match (js ''20231301120000 +0000'')
     = Some (js ''2023'', js ''13'', js ''01'', js ''12'', js ''00'', js ''00'',
             Some (js ''+0000''))
   \<and> parseXmltvDate (run_at 0) (Some (js ''20231301120000 +0000'')) = Some Invalid_Date"
  by (simp add: parseXmltvDate_def xmltv_match_def new_Date_def iso_parse_def
      iso_month_illegal_def iso_shape_def iso_offset_def fields_valid_def truthy_def
      or_default_def js_def is_digit_def is_ws_def num_def Let_def)

subsection \<open>C9: the stable hash against its reference definition\<close>

text \<open>
  C9: \<open>generateStableId\<close> equals the reference definition: each absent input becomes
  \<open>unknown\<close>, the two are joined by a colon, and the 32-bit machine arithmetic of the
  loop computes the rolling hash truncated to the signed 32-bit range at each step; then
  absolute value, base 36 and the prefix. The \<open>||\<close> of the code takes an empty string
  for absent as well; on every other pair of inputs the code equals the reference
  definition as worded, and \<open>parse\<close>, the only caller, never passes an empty string:
  every id it computes by the hash is the reference definition of the channel's name
  and groupTitle.
\<close>

theorem generateStableId_refines_spec_hash:
  "generateStableId name' group' =
     spec_stable_id
       (if name' = None \<or> name' = Some [] then js ''unknown''
        else spec_absent_default name')
       (if group' = None \<or> group' = Some [] then js ''unknown''
        else spec_absent_default group')
   \<and> (name' \<noteq> Some [] \<and> group' \<noteq> Some []
        \<longrightarrow> generateStableId name' group' = spec_generateStableId name' group')
   \<and> (parse rt content = Inr p
        \<longrightarrow> (\<forall>c \<in> set (channels p). \<not> truthy (tvgId c)
               \<longrightarrow> name c \<noteq> Some [] \<and> groupTitle c \<noteq> Some []
                   \<and> id' c = spec_generateStableId (name c) (groupTitle c)))"
proof (intro conjI)
  have d: "or_default x (js ''unknown'') =
      (if x = None \<or> x = Some [] then js ''unknown'' else spec_absent_default x)" for x
    by (cases x) (simp_all add: or_default_def spec_absent_default_def)
  have "sint (foldl hash_step 0 s) = spec_hash s" for s
    using sint_foldl_hash_step [of 0 s] by (simp add: spec_hash_def)
  then show "generateStableId name' group' =
     spec_stable_id
       (if name' = None \<or> name' = Some [] then js ''unknown''
        else spec_absent_default name')
       (if group' = None \<or> group' = Some [] then js ''unknown''
        else spec_absent_default group')"
    by (simp add: generateStableId_def spec_stable_id_def Let_def d)
next
  show "name' \<noteq> Some [] \<and> group' \<noteq> Some []
        \<longrightarrow> generateStableId name' group' = spec_generateStableId name' group'"
    by (simp add: generateStableId_literal)
next
  show "parse rt content = Inr p
        \<longrightarrow> (\<forall>c \<in> set (channels p). \<not> truthy (tvgId c)
               \<longrightarrow> name c \<noteq> Some [] \<and> groupTitle c \<noteq> Some []
                   \<and> id' c = spec_generateStableId (name c) (groupTitle c))"
  proof (intro impI ballI)
    fix c
    assume p: "parse rt content = Inr p" and c: "c \<in> set (channels p)"
      and f: "\<not> truthy (tvgId c)"
    let ?ls = "tl (map trim (split_nl content))"
    from c channels_built_from_entries [of rt ?ls]
    obtain e where "built_from rt c e"
      unfolding parse_channels [OF p] by (blast dest: list_all2_lhs)
    with f have n: "name c \<noteq> Some []"
      and i: "id' c = generateStableId (name c) (groupTitle c)"
      using parseExtinf_falsy_name [of rt "fst e"] by (auto simp: built_from_def)
    from c group_nonempty_scan_lines [of rt ?ls] have g: "groupTitle c \<noteq> Some []"
      unfolding parse_channels [OF p] by (auto simp: group_nonempty_def)
    from n g i show "name c \<noteq> Some [] \<and> groupTitle c \<noteq> Some []
        \<and> id' c = spec_generateStableId (name c) (groupTitle c)"
      by (simp add: generateStableId_literal)
  qed
qed

theorem generateStableId_refines_spec_hash_witness:
  "generateStableId None (Some (js ''Uncategorized''))
     = spec_generateStableId None (Some (js ''Uncategorized''))
   \<and> spec_generateStableId None (Some (js ''Uncategorized'')) = js ''m3u_czhduq''
   \<and> ids (parse (run_at 0)
        (js ''#EXTM3U'' @ [10] @ js ''#EXTINF:,Name'' @ [10] @ js ''http://a''))
      = [spec_generateStableId None (Some (js ''Uncategorized''))]"
proof -
  let ?c = "\<lparr>duration = js ''-1'', tvgId = None, tvgName = None, tvgLogo = None,
      groupTitle = Some (js ''Uncategorized''), name = None, id' = js ''m3u_czhduq'',
      url = js ''http://a''\<rparr>"
  have run: "parse (run_at 0)
      (js ''#EXTM3U'' @ [10] @ js ''#EXTINF:,Name'' @ [10] @ js ''http://a'')
    = Inr \<lparr>channels = [?c], groups = []\<rparr>"
    by (simp add: run_defs)
  have ev: "spec_generateStableId None (Some (js ''Uncategorized'')) = js ''m3u_czhduq''"
    by (simp add: spec_generateStableId_def spec_stable_id_def spec_absent_default_def
        spec_hash_def to_int32_def js_def toString_radix.simps digit_char_def)
  note t = generateStableId_refines_spec_hash
    [of None "Some (js ''Uncategorized'')" "run_at 0"
      "js ''#EXTM3U'' @ [10] @ js ''#EXTINF:,Name'' @ [10] @ js ''http://a''"
      "\<lparr>channels = [?c], groups = []\<rparr>"]
  have ne: "Some (js ''Uncategorized'') \<noteq> Some []"
    by (simp add: js_def)
  from t [THEN conjunct2, THEN conjunct1] ne
  have a: "generateStableId None (Some (js ''Uncategorized''))
     = spec_generateStableId None (Some (js ''Uncategorized''))"
    by blast
  from t [THEN conjunct2, THEN conjunct2] run
  have "id' ?c = spec_generateStableId (name ?c) (groupTitle ?c)"
    by (simp add: truthy_def)
  then show ?thesis
    unfolding run using a ev by (simp add: ids_def)
qed

subsection \<open>C10: the descriptor's tvgId and the hash fallback\<close>

text \<open>
  C10, amended: on a metadata line that the duration pattern matches, \<open>parseExtinf\<close>
  returns a descriptor with a non-empty \<open>tvgId\<close>; on a line it does not match, the
  initial descriptor, whose \<open>tvgId\<close> and \<open>name\<close> are null. The id of an emitted
  channel is its \<open>tvgId\<close> when that is non-empty, and otherwise the stable hash of an
  absent name and the groupTitle: the fallback is reached exactly by the channels built
  from lines without a match. (Lower-casing is assumed not to empty a non-empty string.)
\<close>

theorem tvgId_nonempty_when_duration_matches:
  assumes "\<forall>s. s \<noteq> [] \<longrightarrow> toLowerCase rt s \<noteq> []"
  shows "(extinf_search line \<noteq> None \<longrightarrow> truthy (tvgId (parseExtinf rt line)))
       \<and> (extinf_search line = None \<longrightarrow> parseExtinf rt line = info0)
       \<and> (parse rt content = Inr p \<longrightarrow>
            (\<forall>c \<in> set (channels p).
               if truthy (tvgId c) then Some (id' c) = tvgId c
               else tvgId c = None \<and> name c = None
                    \<and> id' c = generateStableId None (groupTitle c)))"
proof (intro conjI impI ballI)
  assume "extinf_search line \<noteq> None"
  then obtain m where "extinf_search line = Some m"
    by auto
  with assms show "truthy (tvgId (parseExtinf rt line))"
    by (rule parseExtinf_truthy)
next
  assume "extinf_search line = None"
  then show "parseExtinf rt line = info0"
    by (rule parseExtinf_no_match)
next
  fix c
  assume p: "parse rt content = Inr p" and c: "c \<in> set (channels p)"
  from c channels_built_from_entries [of rt "tl (map trim (split_nl content))"]
  obtain e where "built_from rt c e"
    unfolding parse_channels [OF p] by (blast dest: list_all2_lhs)
  then obtain l where l: "tvgId c = tvgId (parseExtinf rt l)" "name c = name (parseExtinf rt l)"
    and i: "id' c = (if truthy (tvgId c) then or_default (tvgId c) []
                      else generateStableId (name c) (groupTitle c))"
    by (auto simp: built_from_def)
  have f: "truthy (tvgId (parseExtinf rt l)) \<or> parseExtinf rt l = info0"
  proof (cases "extinf_search l")
    case None
    then show ?thesis by (simp add: parseExtinf_no_match)
  next
    case (Some m)
    with assms have "truthy (tvgId (parseExtinf rt l))"
      by (rule parseExtinf_truthy)
    then show ?thesis ..
  qed
  show "if truthy (tvgId c) then Some (id' c) = tvgId c
        else tvgId c = None \<and> name c = None \<and> id' c = generateStableId None (groupTitle c)"
  proof (cases "truthy (tvgId c)")
    case True
    then show ?thesis
      by (cases "tvgId c") (auto simp: i truthy_def or_default_def)
  next
    case False
    with f l have "parseExtinf rt l = info0" by simp
    with l False show ?thesis
      by (simp add: i info0_def)
  qed
qed

theorem tvgId_nonempty_when_duration_matches_witness:
  "truthy (tvgId (parseExtinf (run_at 0) (js ''#EXTINF:-1,Channel A'')))
   \<and> parseExtinf (run_at 0) (js ''#EXTINF:,Name'') = info0
   \<and> ids (parse (run_at 0)
        (js ''#EXTM3U'' @ [10] @ js ''#EXTINF:-1,Channel A'' @ [10] @ js ''http://a''))
      = [js ''channel_a'']"
proof -
  have m1: "extinf_search (js ''#EXTINF:-1,Channel A'') \<noteq> None"
    by (simp add: run_defs)
  have m2: "extinf_search (js ''#EXTINF:,Name'') = None"
    by (simp add: run_defs)
  have run: "parse (run_at 0)
      (js ''#EXTM3U'' @ [10] @ js ''#EXTINF:-1,Channel A'' @ [10] @ js ''http://a'')
    = Inr \<lparr>channels =
        [\<lparr>duration = js ''-1'', tvgId = Some (js ''channel_a''), tvgName = None,
          tvgLogo = None, groupTitle = Some (js ''Uncategorized''),
          name = Some (js ''Channel A''), id' = js ''channel_a'', url = js ''http://a''\<rparr>],
       groups = []\<rparr>"
    by (simp add: run_defs)
  note t = tvgId_nonempty_when_duration_matches [OF ascii_lower_nonempty]
  from t [of "js ''#EXTINF:-1,Channel A''" 0] m1
  have "truthy (tvgId (parseExtinf (run_at 0) (js ''#EXTINF:-1,Channel A'')))"
    by blast
  moreover from t [of "js ''#EXTINF:,Name''" 0] m2
  have "parseExtinf (run_at 0) (js ''#EXTINF:,Name'') = info0"
    by blast
  moreover from t [of "js ''#EXTINF:-1,Channel A''" 0] run
  have "ids (parse (run_at 0)
        (js ''#EXTM3U'' @ [10] @ js ''#EXTINF:-1,Channel A'' @ [10] @ js ''http://a''))
      = [js ''channel_a'']"
    by (simp add: ids_def)
  ultimately show ?thesis by blast
qed

text \<open>
  The claim as stated fails on a metadata line without a numeric duration: the
  descriptor has no \<open>tvgId\<close> and the channel gets the stable hash.
\<close>

theorem hash_fallback_reached_counterexample:
  "tvgId (parseExtinf (run_at 0) (js ''#EXTINF:,Name'')) = None
   \<and> ids (parse (run_at 0)
        (js ''#EXTM3U'' @ [10] @ js ''#EXTINF:,Name'' @ [10] @ js ''http://a''))
      = [generateStableId None (Some (js ''Uncategorized''))]
   \<and> generateStableId None (Some (js ''Uncategorized'')) = js ''m3u_czhduq''"
  by (simp add: ids_def run_defs)

end
